theory Spec2Isabelle
  imports Complex_Main "HOL-Library.AList"
begin

section \<open>Values and errors\<close>

text \<open>
  The pipeline handles parsed JSON: Python's \<open>None\<close>, \<open>bool\<close>, \<open>int\<close>, \<open>float\<close>,
  \<open>str\<close>, \<open>list\<close> and \<open>dict\<close>. A dict keeps its keys in insertion order, so it is an
  association list whose keys are distinct; a float is kept as mantissa and binary
  exponent (only whether it is zero matters here).
\<close>

datatype json =
    JNull
  | JBool bool
  | JInt int
  | JFloat int int
  | JStr string
  | JArr "json list"
  | JObj "(string \<times> json) list"

text \<open>Every exception the modelled code can raise is a value.\<close>

datatype py_error =
    RuntimeError string
  | TypeError
  | ValueError
  | KeyError string
  | AttributeError
  | OverflowError
  | HTTPError
  | MergeError

type_synonym 'a result = "py_error + 'a"

section \<open>daily\_values.py: chunk\_list\<close>

text \<open>
  \<^verbatim>\<open>range(0, n, step)\<close>: the multiples of a positive step below \<open>n\<close>; nothing for a
  negative step (the start \<open>0\<close> is not above \<open>n\<close>); a zero step raises ValueError.
\<close>

definition py_range0 :: "nat \<Rightarrow> int \<Rightarrow> nat list result" where
  "py_range0 n step =
     (if step = 0 then Inl ValueError
      else if step < 0 then Inr []
      else Inr (map (\<lambda>j. j * nat step) [0 ..< (n + nat step - 1) div nat step]))"

text \<open>\<^verbatim>\<open>items[i : i + chunk_size]\<close> for \<open>0 \<le> i\<close> and \<open>0 < chunk_size\<close>.\<close>

definition py_slice :: "'a list \<Rightarrow> nat \<Rightarrow> nat \<Rightarrow> 'a list" where
  "py_slice items i k = take k (drop i items)"

text \<open>
  \<^verbatim>\<open>return [items[i : i + chunk_size] for i in range(0, len(items), chunk_size)]\<close>
  The slice is only evaluated for the indices of the range, which exist only for a
  positive chunk size.
\<close>

definition chunk_list :: "'a list \<Rightarrow> int \<Rightarrow> 'a list list result" where
  "chunk_list items chunk_size =
     (case py_range0 (length items) chunk_size of
        Inl e \<Rightarrow> Inl e
      | Inr idxs \<Rightarrow> Inr (map (\<lambda>i. py_slice items i (nat chunk_size)) idxs))"

section \<open>Python built-ins used by daily\_values.py\<close>

type_synonym dict = "(string \<times> json) list"

text \<open>\<^verbatim>\<open>bool(v)\<close>: the truth value Python gives a parsed JSON value.\<close>

fun truthy :: "json \<Rightarrow> bool" where
  "truthy JNull = False"
| "truthy (JBool b) = b"
| "truthy (JInt i) = (i \<noteq> 0)"
| "truthy (JFloat m e) = (m \<noteq> 0)"
| "truthy (JStr s) = (s \<noteq> [])"
| "truthy (JArr xs) = (xs \<noteq> [])"
| "truthy (JObj kvs) = (kvs \<noteq> [])"

text \<open>\<^verbatim>\<open>d.get(k, default)\<close> and \<^verbatim>\<open>d[k]\<close> on a dict.\<close>

definition py_get :: "dict \<Rightarrow> string \<Rightarrow> json \<Rightarrow> json" where
  "py_get d k dflt = (case map_of d k of None \<Rightarrow> dflt | Some v \<Rightarrow> v)"

definition py_getitem :: "dict \<Rightarrow> string \<Rightarrow> json result" where
  "py_getitem d k = (case map_of d k of None \<Rightarrow> Inl (KeyError k) | Some v \<Rightarrow> Inr v)"

text \<open>
  \<^verbatim>\<open>x.get(k, default)\<close> on any value: only a dict has the method, every other JSON
  value raises AttributeError.
\<close>

definition py_get_attr :: "json \<Rightarrow> string \<Rightarrow> json \<Rightarrow> json result" where
  "py_get_attr x k dflt = (case x of JObj d \<Rightarrow> Inr (py_get d k dflt) | _ \<Rightarrow> Inl AttributeError)"

text \<open>
  \<^verbatim>\<open>str(v)\<close>: a string is returned as it is; the text of any other value (a number's
  digits, a container's repr) is left to \<open>repr\<close>, the interpreter's formatting.
\<close>

definition py_str :: "(json \<Rightarrow> string) \<Rightarrow> json \<Rightarrow> string" where
  "py_str repr v = (case v of JStr s \<Rightarrow> s | _ \<Rightarrow> repr v)"

text \<open>
  \<^verbatim>\<open>for f in x\<close>: a list gives its elements, a dict its keys, a string its
  characters; None, booleans and numbers are not iterable.
\<close>

definition py_iter :: "json \<Rightarrow> json list result" where
  "py_iter x =
     (case x of
        JArr xs \<Rightarrow> Inr xs
      | JObj d \<Rightarrow> Inr (map (\<lambda>(k, v). JStr k) d)
      | JStr s \<Rightarrow> Inr (map (\<lambda>c. JStr [c]) s)
      | _ \<Rightarrow> Inl TypeError)"

text \<open>\<^verbatim>\<open>",".join(batch)\<close>\<close>

fun join_comma :: "string list \<Rightarrow> string" where
  "join_comma [] = []"
| "join_comma [x] = x"
| "join_comma (x # y # ys) = x @ '','' @ join_comma (y # ys)"

text \<open>
  \<^verbatim>\<open>int(s)\<close> for the value of an environment variable: \<open>None\<close> raises TypeError;
  a string is stripped of surrounding white space and read as an optional sign and
  decimal digits, where single underscores may separate digits; anything else raises
  ValueError. A character here is a code point below 256; the white space among them,
  for \<^verbatim>\<open>int\<close> and for \<^verbatim>\<open>str.strip\<close> alike, is U+0009 to U+000D, U+001C to U+001F,
  U+0020, U+0085 and U+00A0. (The interpreter's limit on the number of digits is not
  modelled.)
\<close>

definition is_space :: "char \<Rightarrow> bool" where
  "is_space c = (c \<in> set [CHR 0x09, CHR 0x0A, CHR 0x0B, CHR 0x0C, CHR 0x0D,
                          CHR 0x1C, CHR 0x1D, CHR 0x1E, CHR 0x1F, CHR 0x20,
                          CHR 0x85, CHR 0xA0])"

definition strip :: "string \<Rightarrow> string" where
  "strip s = rev (dropWhile is_space (rev (dropWhile is_space s)))"

definition digit_val :: "char \<Rightarrow> nat option" where
  "digit_val c =
     map_of [(CHR ''0'', 0), (CHR ''1'', 1), (CHR ''2'', 2), (CHR ''3'', 3), (CHR ''4'', 4),
             (CHR ''5'', 5), (CHR ''6'', 6), (CHR ''7'', 7), (CHR ''8'', 8), (CHR ''9'', 9)] c"

fun parse_digits :: "string \<Rightarrow> nat \<Rightarrow> bool \<Rightarrow> nat option" where
  "parse_digits [] acc prev_digit = (if prev_digit then Some acc else None)"
| "parse_digits (c # cs) acc prev_digit =
     (if c = CHR ''_''
      then (if prev_digit \<and> cs \<noteq> [] then parse_digits cs acc False else None)
      else (case digit_val c of
              None \<Rightarrow> None
            | Some d \<Rightarrow> parse_digits cs (10 * acc + d) True))"

definition py_int_of_string :: "string \<Rightarrow> int result" where
  "py_int_of_string s =
     (case strip s of
        [] \<Rightarrow> Inl ValueError
      | c # cs \<Rightarrow>
          (if c = CHR ''-'' then
             (case parse_digits cs 0 False of None \<Rightarrow> Inl ValueError | Some n \<Rightarrow> Inr (- int n))
           else if c = CHR ''+'' then
             (case parse_digits cs 0 False of None \<Rightarrow> Inl ValueError | Some n \<Rightarrow> Inr (int n))
           else
             (case parse_digits (c # cs) 0 False of None \<Rightarrow> Inl ValueError | Some n \<Rightarrow> Inr (int n))))"

definition py_int :: "string option \<Rightarrow> int result" where
  "py_int v = (case v of None \<Rightarrow> Inl TypeError | Some s \<Rightarrow> py_int_of_string s)"

section \<open>The world daily\_values.py runs in\<close>

text \<open>
  One HTTP GET as \<^verbatim>\<open>requests.get(url, params=..., timeout=...)\<close> issues it.
\<close>

record request =
  req_url :: string
  req_params :: dict
  req_timeout :: int

text \<open>
  What the code reads from outside itself: the environment after \<^verbatim>\<open>load_dotenv()\<close>,
  the library's JSON parser (\<open>None\<close> for a JSONDecodeError), the \<^verbatim>\<open>dict(...)\<close>
  constructor on a parsed value, the clock (seconds since the epoch, UTC), the
  formatting of a time by \<^verbatim>\<open>strftime("%Y-%m-%dT%H:%M:%SZ")\<close>, the formatting of
  non-string values by \<^verbatim>\<open>str\<close>, and the server: \<open>http_get n r\<close> is the outcome of
  \<^verbatim>\<open>requests.get\<close>, \<^verbatim>\<open>raise_for_status\<close> and \<^verbatim>\<open>r.json()\<close> for request \<open>r\<close> when
  \<open>n\<close> requests were issued before it (\<open>Inl\<close> for whichever of them raises).
\<close>

record runtime =
  getenv :: "string \<Rightarrow> string option"
  json_loads :: "string \<Rightarrow> json option"
  dict_of :: "json \<Rightarrow> dict result"
  utcnow :: int
  strftime :: "int \<Rightarrow> string"
  repr_of :: "json \<Rightarrow> string"
  http_get :: "nat \<Rightarrow> request \<Rightarrow> json result"

section \<open>daily\_values.py: calculate\_time\_range\<close>

text \<open>
  \<^verbatim>\<open>timedelta(days=days)\<close> raises OverflowError beyond 999999999 days, and the
  subtraction raises it when the start leaves the years 1 to 9999.
\<close>

definition datetime_min :: int where
  "datetime_min = - 62135596800"

definition datetime_max :: int where
  "datetime_max = 253402300799"

definition calculate_time_range :: "'a runtime_scheme \<Rightarrow> string result" where
  "calculate_time_range rt =
     (case py_int (getenv rt ''DV_TIME_RANGE_DAYS'') of
        Inl e \<Rightarrow> Inl e
      | Inr days \<Rightarrow>
          (let end_dt = utcnow rt in
           if \<bar>days\<bar> > 999999999 then Inl OverflowError
           else
             (let start_dt = end_dt - days * 86400 in
              if start_dt < datetime_min \<or> datetime_max < start_dt then Inl OverflowError
              else Inr (strftime rt start_dt @ ''/'' @ strftime rt end_dt))))"

section \<open>daily\_values.py: extract\_location\_ids\<close>

text \<open>
  The body of the first loop, for one feature \<open>f\<close>:
  \<^verbatim>\<open>
  props = f.get("properties", {})
  if isinstance(props, dict) and props.get("id"):
      ids.append(str(props["id"]))
  elif f.get("id"):
      ids.append(str(f["id"]))
  \<close>
\<close>

definition props_has_id :: "json \<Rightarrow> bool" where
  "props_has_id props = (case props of JObj p \<Rightarrow> truthy (py_get p ''id'' JNull) | _ \<Rightarrow> False)"

definition append_feature_id :: "(json \<Rightarrow> string) \<Rightarrow> json \<Rightarrow> string list \<Rightarrow> string list result" where
  "append_feature_id repr f ids =
     (case py_get_attr f ''properties'' (JObj []) of
        Inl e \<Rightarrow> Inl e
      | Inr props \<Rightarrow>
          (if props_has_id props then
             (case props of
                JObj p \<Rightarrow>
                  (case py_getitem p ''id'' of
                     Inl e \<Rightarrow> Inl e
                   | Inr v \<Rightarrow> Inr (ids @ [py_str repr v]))
              | _ \<Rightarrow> Inl TypeError)
           else
             (case py_get_attr f ''id'' JNull of
                Inl e \<Rightarrow> Inl e
              | Inr v \<Rightarrow>
                  (if truthy v then
                     (case f of
                        JObj d \<Rightarrow>
                          (case py_getitem d ''id'' of
                             Inl e \<Rightarrow> Inl e
                           | Inr w \<Rightarrow> Inr (ids @ [py_str repr w]))
                      | _ \<Rightarrow> Inl TypeError)
                   else Inr ids))))"

fun collect_ids :: "(json \<Rightarrow> string) \<Rightarrow> json list \<Rightarrow> string list \<Rightarrow> string list result" where
  "collect_ids repr [] ids = Inr ids"
| "collect_ids repr (f # fs) ids =
     (case append_feature_id repr f ids of
        Inl e \<Rightarrow> Inl e
      | Inr ids' \<Rightarrow> collect_ids repr fs ids')"

text \<open>
  The second loop:
  \<^verbatim>\<open>
  seen = set(); out = []
  for x in ids:
      if x not in seen:
          seen.add(x); out.append(x)
  \<close>
\<close>

fun dedupe :: "string list \<Rightarrow> string set \<Rightarrow> string list \<Rightarrow> string list" where
  "dedupe [] seen out = out"
| "dedupe (x # xs) seen out =
     (if x \<notin> seen then dedupe xs (insert x seen) (out @ [x]) else dedupe xs seen out)"

definition extract_location_ids :: "(json \<Rightarrow> string) \<Rightarrow> json \<Rightarrow> string list result" where
  "extract_location_ids repr locations_json =
     (case py_get_attr locations_json ''features'' (JArr []) of
        Inl e \<Rightarrow> Inl e
      | Inr features \<Rightarrow>
          (case py_iter features of
             Inl e \<Rightarrow> Inl e
           | Inr fs \<Rightarrow>
               (case collect_ids repr fs [] of
                  Inl e \<Rightarrow> Inl e
                | Inr ids \<Rightarrow> Inr (dedupe ids {} []))))"

text \<open>
  The rule of the specification, in its own words: the identifier of a feature is
  \<open>properties.id\<close> when present and truthy, else the top-level \<open>id\<close> when present and
  truthy, else the feature has none; and a list keeps the first occurrence of each of
  its elements.
\<close>

definition top_level_id :: "dict \<Rightarrow> json option" where
  "top_level_id d =
     (case map_of d ''id'' of Some v \<Rightarrow> (if truthy v then Some v else None) | None \<Rightarrow> None)"

definition spec_identifier :: "dict \<Rightarrow> json option" where
  "spec_identifier d =
     (case map_of d ''properties'' of
        Some (JObj p) \<Rightarrow>
          (case map_of p ''id'' of
             Some v \<Rightarrow> (if truthy v then Some v else top_level_id d)
           | None \<Rightarrow> top_level_id d)
      | _ \<Rightarrow> top_level_id d)"

fun the_dict :: "json \<Rightarrow> dict" where
  "the_dict (JObj d) = d"
| "the_dict _ = []"

fun is_dict :: "json \<Rightarrow> bool" where
  "is_dict (JObj d) = True"
| "is_dict _ = False"

fun first_occurrences :: "'a list \<Rightarrow> 'a list" where
  "first_occurrences [] = []"
| "first_occurrences (x # xs) = x # filter (\<lambda>y. y \<noteq> x) (first_occurrences xs)"

section \<open>daily\_values.py: fetch\_daily\_values\_for\_locations\<close>

text \<open>
  \<^verbatim>\<open>x = os.getenv(k); if not x: raise RuntimeError(msg)\<close>: an unset variable and an
  empty one are both refused.
\<close>

definition require_env :: "'a runtime_scheme \<Rightarrow> string \<Rightarrow> string \<Rightarrow> string result" where
  "require_env rt k msg =
     (case getenv rt k of
        None \<Rightarrow> Inl (RuntimeError msg)
      | Some v \<Rightarrow> (if v = [] then Inl (RuntimeError msg) else Inr v))"

text \<open>The values the function holds when it enters its loop (source lines 97 to 124).\<close>

record fetch_config =
  cfg_base_url :: string
  cfg_params_base :: json
  cfg_batch_size :: int
  cfg_timeout :: int
  cfg_time_range :: string
  cfg_batches :: "string list list"

definition fetch_setup :: "'a runtime_scheme \<Rightarrow> json \<Rightarrow> fetch_config result" where
  "fetch_setup rt locations_json =
     (case require_env rt ''USGS_DV_BASE_URL'' ''Missing USGS_DV_BASE_URL in .env'' of
        Inl e \<Rightarrow> Inl e
      | Inr dv_base_url \<Rightarrow>
     (case require_env rt ''DV_QUERY_PARAMS'' ''Missing DV_QUERY_PARAMS in .env (must be JSON)'' of
        Inl e \<Rightarrow> Inl e
      | Inr raw_params \<Rightarrow>
     (case json_loads rt raw_params of
        None \<Rightarrow> Inl (RuntimeError ''DV_QUERY_PARAMS is not valid JSON'')
      | Some dv_params_base \<Rightarrow>
     (case py_int (getenv rt ''DV_BATCH_SIZE'') of
        Inl e \<Rightarrow> Inl e
      | Inr batch_size \<Rightarrow>
     (case py_int (getenv rt ''API_TIMEOUT_SECONDS'') of
        Inl e \<Rightarrow> Inl e
      | Inr timeout \<Rightarrow>
     (case extract_location_ids (repr_of rt) locations_json of
        Inl e \<Rightarrow> Inl e
      | Inr ids \<Rightarrow>
     (if ids = [] then Inl (RuntimeError ''No monitoring location IDs found in locations JSON'')
      else
     (case calculate_time_range rt of
        Inl e \<Rightarrow> Inl e
      | Inr time_range \<Rightarrow>
     (case chunk_list ids batch_size of
        Inl e \<Rightarrow> Inl e
      | Inr batches \<Rightarrow>
          Inr \<lparr>cfg_base_url = dv_base_url, cfg_params_base = dv_params_base,
               cfg_batch_size = batch_size, cfg_timeout = timeout,
               cfg_time_range = time_range, cfg_batches = batches\<rparr>)))))))))"

text \<open>
  The request of one batch:
  \<^verbatim>\<open>
  dv_params = dict(dv_params_base)
  dv_params["monitoring_location_id"] = ",".join(batch)
  dv_params["time"] = time_range
  \<close>
  Assigning to a key of a dict replaces the value in place or appends the key.
\<close>

definition batch_request :: "string \<Rightarrow> dict \<Rightarrow> int \<Rightarrow> string \<Rightarrow> string list \<Rightarrow> request" where
  "batch_request url params0 timeout time_range batch =
     \<lparr>req_url = url,
      req_params = AList.update ''time'' (JStr time_range)
                     (AList.update ''monitoring_location_id'' (JStr (join_comma batch)) params0),
      req_timeout = timeout\<rparr>"

text \<open>
  \<^verbatim>\<open>
  if first_page_meta is None:
      first_page_meta = {k: v for k, v in data.items() if k != "features"}
  \<close>
  Only a dict has \<^verbatim>\<open>items\<close>.
\<close>

definition keep_meta :: "dict option \<Rightarrow> json \<Rightarrow> dict option result" where
  "keep_meta first_page_meta data =
     (case first_page_meta of
        Some m \<Rightarrow> Inr (Some m)
      | None \<Rightarrow>
          (case data of
             JObj d \<Rightarrow> Inr (Some (filter (\<lambda>(k, v). k \<noteq> ''features'') d))
           | _ \<Rightarrow> Inl AttributeError))"

text \<open>
  \<^verbatim>\<open>
  features = data.get("features", [])
  if isinstance(features, list):
      all_features.extend(features)
  \<close>
\<close>

definition extend_features :: "json list \<Rightarrow> json \<Rightarrow> json list result" where
  "extend_features all_features data =
     (case py_get_attr data ''features'' (JArr []) of
        Inl e \<Rightarrow> Inl e
      | Inr features \<Rightarrow>
          (case features of JArr xs \<Rightarrow> Inr (all_features @ xs) | _ \<Rightarrow> Inr all_features))"

text \<open>
  The loop over the batches. The last argument is the list of the requests issued so
  far; it is returned with the outcome, so that a failure shows how far the run went.
\<close>

fun fetch_batches ::
  "'a runtime_scheme \<Rightarrow> fetch_config \<Rightarrow> string list list \<Rightarrow> json list \<Rightarrow> dict option \<Rightarrow>
     request list \<Rightarrow> (json list \<times> dict option) result \<times> request list" where
  "fetch_batches rt cfg [] all_features first_page_meta issued =
     (Inr (all_features, first_page_meta), issued)"
| "fetch_batches rt cfg (batch # rest) all_features first_page_meta issued =
     (case dict_of rt (cfg_params_base cfg) of
        Inl e \<Rightarrow> (Inl e, issued)
      | Inr params0 \<Rightarrow>
          (let r = batch_request (cfg_base_url cfg) params0 (cfg_timeout cfg)
                     (cfg_time_range cfg) batch
           in case http_get rt (length issued) r of
                Inl e \<Rightarrow> (Inl e, issued @ [r])
              | Inr data \<Rightarrow>
                  (case keep_meta first_page_meta data of
                     Inl e \<Rightarrow> (Inl e, issued @ [r])
                   | Inr meta' \<Rightarrow>
                       (case extend_features all_features data of
                          Inl e \<Rightarrow> (Inl e, issued @ [r])
                        | Inr all_features' \<Rightarrow>
                            fetch_batches rt cfg rest all_features' meta' (issued @ [r])))))"

text \<open>
  \<^verbatim>\<open>
  combined = {**(first_page_meta or {}), "features": all_features,
              "numberReturned": len(all_features), "total_features": len(all_features),
              "batch_size": batch_size, "batches": len(batches), "time_range": time_range}
  \<close>
\<close>

definition combine :: "fetch_config \<Rightarrow> json list \<Rightarrow> dict option \<Rightarrow> dict" where
  "combine cfg all_features first_page_meta =
     AList.update ''time_range'' (JStr (cfg_time_range cfg))
       (AList.update ''batches'' (JInt (int (length (cfg_batches cfg))))
         (AList.update ''batch_size'' (JInt (cfg_batch_size cfg))
           (AList.update ''total_features'' (JInt (int (length all_features)))
             (AList.update ''numberReturned'' (JInt (int (length all_features)))
               (AList.update ''features'' (JArr all_features)
                 (case first_page_meta of None \<Rightarrow> [] | Some m \<Rightarrow> m))))))"

text \<open>
  The whole function: its outcome and the requests it issued, in order.
\<close>

definition fetch_daily_values_for_locations ::
  "'a runtime_scheme \<Rightarrow> json \<Rightarrow> dict result \<times> request list" where
  "fetch_daily_values_for_locations rt locations_json =
     (case fetch_setup rt locations_json of
        Inl e \<Rightarrow> (Inl e, [])
      | Inr cfg \<Rightarrow>
          (case fetch_batches rt cfg (cfg_batches cfg) [] None [] of
             (Inl e, issued) \<Rightarrow> (Inl e, issued)
           | (Inr (all_features, first_page_meta), issued) \<Rightarrow>
               (Inr (combine cfg all_features first_page_meta), issued)))"

text \<open>
  The features one response contributes, in the words of the specification: its
  \<open>features\<close> list, and nothing when the field is missing or not a list.
\<close>

definition response_features :: "dict \<Rightarrow> json list" where
  "response_features d = (case map_of d ''features'' of Some (JArr xs) \<Rightarrow> xs | _ \<Rightarrow> [])"

subsection \<open>A concrete run\<close>

text \<open>
  An environment, a parser that knows the configured template, a clock and a server that
  answers the first request with three features, the second with two and a third with
  an object that has no feature list.
\<close>

definition example_environ :: "(string \<times> string) list" where
  "example_environ =
     [(''USGS_DV_BASE_URL'', ''https://example.org/daily''),
      (''DV_QUERY_PARAMS'', ''{}''),
      (''DV_BATCH_SIZE'', ''2''),
      (''API_TIMEOUT_SECONDS'', ''30''),
      (''DV_TIME_RANGE_DAYS'', ''90'')]"

definition example_dict_of :: "json \<Rightarrow> dict result" where
  "example_dict_of x = (case x of JObj d \<Rightarrow> Inr d | _ \<Rightarrow> Inl TypeError)"

definition example_strftime :: "int \<Rightarrow> string" where
  "example_strftime t = (if t = 1700000000 then ''2023-11-14T22:13:20Z'' else ''2023-08-16T22:13:20Z'')"

definition example_repr :: "json \<Rightarrow> string" where
  "example_repr v = ''?''"

definition example_server :: "nat \<Rightarrow> request \<Rightarrow> json result" where
  "example_server n r =
     (if n = 0 then
        Inr (JObj [(''type'', JStr ''FeatureCollection''),
                   (''features'', JArr [JStr ''f1'', JStr ''f2'', JStr ''f3'']),
                   (''numberReturned'', JInt 3)])
      else if n = 1 then
        Inr (JObj [(''type'', JStr ''FeatureCollection''),
                   (''features'', JArr [JStr ''g1'', JStr ''g2'']),
                   (''numberReturned'', JInt 2)])
      else Inr (JObj [(''type'', JStr ''FeatureCollection''), (''features'', JNull)]))"

definition example_runtime :: "(string \<times> string) list \<Rightarrow> runtime" where
  "example_runtime environ =
     \<lparr>getenv = map_of environ,
      json_loads = map_of [(''{}'', JObj [])],
      dict_of = example_dict_of,
      utcnow = 1700000000,
      strftime = example_strftime,
      repr_of = example_repr,
      http_get = example_server\<rparr>"

definition example_locations :: json where
  "example_locations =
     JObj [(''type'', JStr ''FeatureCollection''),
           (''features'', JArr [JObj [(''properties'', JObj [(''id'', JStr ''USGS-1'')])],
                                JObj [(''properties'', JObj [(''id'', JStr ''USGS-2'')])],
                                JObj [(''id'', JStr ''USGS-3'')],
                                JObj [(''properties'', JObj [(''id'', JStr ''USGS-1'')])]])]"

definition example_config :: fetch_config where
  "example_config =
     \<lparr>cfg_base_url = ''https://example.org/daily'', cfg_params_base = JObj [],
      cfg_batch_size = 2, cfg_timeout = 30,
      cfg_time_range = ''2023-08-16T22:13:20Z/2023-11-14T22:13:20Z'',
      cfg_batches = [[''USGS-1'', ''USGS-2''], [''USGS-3'']]\<rparr>"

section \<open>Tables: the part of pandas the pipeline uses\<close>

text \<open>
  A cell of a DataFrame: missing (\<open>None\<close>, \<open>NaN\<close>, \<open>NaT\<close>), a string, a number or a
  timestamp (seconds since the epoch). A number is a float that is not NaN: an exact
  rational (the rounding error of floating point is not modelled) or one of the two
  infinities, which the library does not count as missing. A row is an association list
  from column names to cells, in column order; a table is its column names and its rows.
  Cells are compared by value; the column dtypes of the library are not modelled.
\<close>

datatype number = Finite rat | PosInf | NegInf

datatype cell = CNull | CStr string | CNum number | CTime int

type_synonym row = "(string \<times> cell) list"

record table =
  columns :: "string list"
  rows :: "row list"

definition cell_of :: "row \<Rightarrow> string \<Rightarrow> cell" where
  "cell_of r c = (case map_of r c of None \<Rightarrow> CNull | Some v \<Rightarrow> v)"

text \<open>
  A table is well formed when its column names are distinct and every row has exactly
  those columns.
\<close>

definition rows_match :: "table \<Rightarrow> bool" where
  "rows_match t = list_all (\<lambda>r. map fst r = columns t) (rows t)"

definition wf_table :: "table \<Rightarrow> bool" where
  "wf_table t = (distinct (columns t) \<and> rows_match t)"

text \<open>\<^verbatim>\<open>df[c] = f(df[c])\<close>, cell by cell; reading a missing column raises KeyError.\<close>

definition map_column :: "string \<Rightarrow> (cell \<Rightarrow> cell) \<Rightarrow> table \<Rightarrow> table result" where
  "map_column c f t =
     (if c \<in> set (columns t)
      then Inr (t\<lparr>rows := map (AList.map_entry c f) (rows t)\<rparr>)
      else Inl (KeyError c))"

text \<open>\<^verbatim>\<open>df.dropna(subset=[c]).reset_index(drop=True)\<close>\<close>

definition dropna :: "string \<Rightarrow> table \<Rightarrow> table result" where
  "dropna c t =
     (if c \<in> set (columns t)
      then Inr (t\<lparr>rows := filter (\<lambda>r. cell_of r c \<noteq> CNull) (rows t)\<rparr>)
      else Inl (KeyError c))"

text \<open>\<^verbatim>\<open>df.drop(columns=[c])\<close>\<close>

definition drop_column :: "string \<Rightarrow> table \<Rightarrow> table result" where
  "drop_column c t =
     (if c \<in> set (columns t)
      then Inr \<lparr>columns = filter (\<lambda>k. k \<noteq> c) (columns t), rows = map (AList.delete c) (rows t)\<rparr>
      else Inl (KeyError c))"

text \<open>\<^verbatim>\<open>df[[c1, ..., cn]]\<close>: the listed columns in the listed order.\<close>

definition select_columns :: "string list \<Rightarrow> table \<Rightarrow> table result" where
  "select_columns cs t =
     (case filter (\<lambda>c. c \<notin> set (columns t)) cs of
        [] \<Rightarrow> Inr \<lparr>columns = cs, rows = map (\<lambda>r. map (\<lambda>c. (c, cell_of r c)) cs) (rows t)\<rparr>
      | c # _ \<Rightarrow> Inl (KeyError c))"

text \<open>\<^verbatim>\<open>df.drop_duplicates()\<close>: whole rows are compared, the first of equal rows stays.\<close>

definition drop_duplicates :: "table \<Rightarrow> table" where
  "drop_duplicates t = t\<lparr>rows := first_occurrences (rows t)\<rparr>"

text \<open>\<^verbatim>\<open>df.rename(columns={old: new})\<close>: nothing happens when \<open>old\<close> is no column.\<close>

definition rename_column :: "string \<Rightarrow> string \<Rightarrow> table \<Rightarrow> table" where
  "rename_column old new t =
     \<lparr>columns = map (\<lambda>k. if k = old then new else k) (columns t),
      rows = map (map (\<lambda>(k, v). (if k = old then new else k, v))) (rows t)\<rparr>"

text \<open>
  \<^verbatim>\<open>left.merge(right, how="left", left_on=a, right_on=b)\<close> for different key names
  \<open>a\<close> and \<open>b\<close>, as in every call of this repository. A column name that occurs on both
  sides gets the suffix \<open>_x\<close> on the left and \<open>_y\<close> on the right; if that makes two
  names of one side equal the library raises MergeError. Every left row is kept, in
  order: once for each right row with an equal key (missing keys match each other), in
  the order of the right table, and once with missing right cells when there is none.
\<close>

definition suffixed :: "string list \<Rightarrow> string \<Rightarrow> string \<Rightarrow> string" where
  "suffixed overlap sfx c = (if c \<in> set overlap then c @ sfx else c)"

definition rename_keys :: "(string \<Rightarrow> string) \<Rightarrow> row \<Rightarrow> row" where
  "rename_keys f r = map (\<lambda>(k, v). (f k, v)) r"

definition merge_row ::
  "(string \<Rightarrow> string) \<Rightarrow> (string \<Rightarrow> string) \<Rightarrow> string list \<Rightarrow> string \<Rightarrow> string \<Rightarrow>
     row list \<Rightarrow> row \<Rightarrow> row list" where
  "merge_row lname rname rcols left_on right_on rrows l =
     (case filter (\<lambda>r. cell_of r right_on = cell_of l left_on) rrows of
        [] \<Rightarrow> [rename_keys lname l @ map (\<lambda>c. (rname c, CNull)) rcols]
      | m # ms \<Rightarrow> map (\<lambda>r. rename_keys lname l @ rename_keys rname r) (m # ms))"

definition merge_left :: "table \<Rightarrow> table \<Rightarrow> string \<Rightarrow> string \<Rightarrow> table result" where
  "merge_left left right left_on right_on =
     (if right_on \<notin> set (columns right) then Inl (KeyError right_on)
      else if left_on \<notin> set (columns left) then Inl (KeyError left_on)
      else
        (let overlap = filter (\<lambda>c. c \<in> set (columns right)) (columns left);
             lname = suffixed overlap ''_x'';
             rname = suffixed overlap ''_y''
         in if overlap \<noteq> []
               \<and> (\<not> distinct (map lname (columns left)) \<or> \<not> distinct (map rname (columns right)))
            then Inl MergeError
            else Inr \<lparr>columns = map lname (columns left) @ map rname (columns right),
                      rows = concat (map (merge_row lname rname (columns right) left_on right_on
                                            (rows right)) (rows left))\<rparr>))"

section \<open>data\_loader.py: join\_daily\_values\_with\_locations\<close>

definition loc_keep :: "string list" where
  "loc_keep = [''id'', ''agency_name'', ''monitoring_location_name'', ''country_name'',
               ''state_name'', ''county_name'', ''site_type'']"

definition join_daily_values_with_locations :: "table \<Rightarrow> table \<Rightarrow> table result" where
  "join_daily_values_with_locations dv_df loc_df =
     (case select_columns loc_keep loc_df of
        Inl e \<Rightarrow> Inl e
      | Inr loc_filtered \<Rightarrow> merge_left dv_df loc_filtered ''monitoring_location_id'' ''id'')"

text \<open>
  Words for the statements about the join: the name a daily-values column and a location
  column have in the joined table, and the location rows that match a daily-values row.
\<close>

definition dv_name :: "table \<Rightarrow> string \<Rightarrow> string" where
  "dv_name dv_df c = suffixed (filter (\<lambda>k. k \<in> set loc_keep) (columns dv_df)) ''_x'' c"

definition loc_name :: "table \<Rightarrow> string \<Rightarrow> string" where
  "loc_name dv_df c = suffixed (filter (\<lambda>k. k \<in> set loc_keep) (columns dv_df)) ''_y'' c"

definition matching_locations :: "table \<Rightarrow> row \<Rightarrow> row list" where
  "matching_locations loc_df l =
     filter (\<lambda>r. cell_of r ''id'' = cell_of l ''monitoring_location_id'') (rows loc_df)"

section \<open>eda.py: clean\_and\_transform\_data\<close>

text \<open>
  The library's lenient parsers, cell by cell (\<open>None\<close> where \<^verbatim>\<open>errors="coerce"\<close>
  gives a missing value): \<^verbatim>\<open>pd.to_datetime\<close> on a string, \<^verbatim>\<open>pd.to_datetime(...,
  utc=True)\<close> and \<^verbatim>\<open>pd.to_numeric\<close> on a cell, and the text \<^verbatim>\<open>astype(str)\<close> gives a
  cell.
\<close>

record pandas =
  to_datetime :: "string \<Rightarrow> int option"
  to_datetime_utc :: "cell \<Rightarrow> int option"
  to_numeric :: "cell \<Rightarrow> number option"
  astype_str :: "cell \<Rightarrow> string"

definition time_cell :: "int option \<Rightarrow> cell" where
  "time_cell x = (case x of None \<Rightarrow> CNull | Some t \<Rightarrow> CTime t)"

definition num_cell :: "number option \<Rightarrow> cell" where
  "num_cell x = (case x of None \<Rightarrow> CNull | Some v \<Rightarrow> CNum v)"

text \<open>\<^verbatim>\<open>pd.to_datetime(df["time"].astype(str).str.strip(), errors="coerce")\<close> for one cell.\<close>

definition parse_time :: "'a pandas_scheme \<Rightarrow> cell \<Rightarrow> cell" where
  "parse_time pd v = time_cell (to_datetime pd (strip (astype_str pd v)))"

definition parse_last_modified :: "'a pandas_scheme \<Rightarrow> cell \<Rightarrow> cell" where
  "parse_last_modified pd v = time_cell (to_datetime_utc pd v)"

definition parse_value :: "'a pandas_scheme \<Rightarrow> cell \<Rightarrow> cell" where
  "parse_value pd v = num_cell (to_numeric pd v)"

definition final_cols :: "string list" where
  "final_cols = [''id'', ''monitoring_location_id'', ''monitoring_location_name'', ''site_type'',
                 ''time'', ''last_modified'', ''parameter_code'', ''parameter_name'', ''value'',
                 ''unit_of_measure'', ''statistic_id'', ''statistic_description'',
                 ''approval_status'', ''agency_name'', ''state_name'', ''county_name'']"

text \<open>Source lines 89 to 105: typing the columns, dropping rows and the qualifier.\<close>

definition parse_and_drop :: "'a pandas_scheme \<Rightarrow> table \<Rightarrow> table result" where
  "parse_and_drop pd joined_df =
     (case map_column ''time'' (parse_time pd) joined_df of
        Inl e \<Rightarrow> Inl e
      | Inr df1 \<Rightarrow>
     (case map_column ''last_modified'' (parse_last_modified pd) df1 of
        Inl e \<Rightarrow> Inl e
      | Inr df2 \<Rightarrow>
     (case map_column ''value'' (parse_value pd) df2 of
        Inl e \<Rightarrow> Inl e
      | Inr df3 \<Rightarrow>
     (case dropna ''value'' df3 of
        Inl e \<Rightarrow> Inl e
      | Inr df4 \<Rightarrow>
          (if ''qualifier'' \<in> set (columns df4) then drop_column ''qualifier'' df4
           else Inr df4)))))"

text \<open>
  Source lines 108 to 110 and 113 to 115, once for each lookup table:
  \<^verbatim>\<open>
  small = lookup_df[["id", name]].drop_duplicates()
  df = df.merge(small, how="left", left_on=code, right_on="id")
  df = df.drop(columns=["id"])
  \<close>
\<close>

definition join_lookup :: "table \<Rightarrow> table \<Rightarrow> string \<Rightarrow> string \<Rightarrow> table result" where
  "join_lookup df lookup_df code name =
     (case select_columns [''id'', name] lookup_df of
        Inl e \<Rightarrow> Inl e
      | Inr sel \<Rightarrow>
          (case merge_left df (drop_duplicates sel) code ''id'' of
             Inl e \<Rightarrow> Inl e
           | Inr merged \<Rightarrow> drop_column ''id'' merged))"

definition clean_and_transform_data ::
  "'a pandas_scheme \<Rightarrow> table \<Rightarrow> table \<Rightarrow> table \<Rightarrow> table result" where
  "clean_and_transform_data pd joined_df param_df stat_df =
     (case parse_and_drop pd joined_df of
        Inl e \<Rightarrow> Inl e
      | Inr df \<Rightarrow>
     (case join_lookup df param_df ''parameter_code'' ''parameter_name'' of
        Inl e \<Rightarrow> Inl e
      | Inr df' \<Rightarrow>
     (case join_lookup df' stat_df ''statistic_id'' ''statistic_description'' of
        Inl e \<Rightarrow> Inl e
      | Inr df'' \<Rightarrow> select_columns final_cols (rename_column ''id_x'' ''id'' df''))))"

text \<open>
  Words for the statements about the cleaner: the rows that survive the drop, what a
  cleaned row takes from the joined row it comes from, the rows of a lookup table as they
  enter the merge, and a lookup table in which a code has only one name.
\<close>

definition kept_rows :: "'a pandas_scheme \<Rightarrow> table \<Rightarrow> row list" where
  "kept_rows pd joined_df =
     filter (\<lambda>r. parse_value pd (cell_of r ''value'') \<noteq> CNull) (rows joined_df)"

definition cleaned_from :: "'a pandas_scheme \<Rightarrow> row \<Rightarrow> row \<Rightarrow> bool" where
  "cleaned_from pd r r' =
     (cell_of r' ''value'' = parse_value pd (cell_of r ''value'')
      \<and> cell_of r' ''time'' = parse_time pd (cell_of r ''time'')
      \<and> cell_of r' ''last_modified'' = parse_last_modified pd (cell_of r ''last_modified'')
      \<and> cell_of r' ''id'' = cell_of r ''id_x''
      \<and> cell_of r' ''monitoring_location_id'' = cell_of r ''monitoring_location_id''
      \<and> cell_of r' ''parameter_code'' = cell_of r ''parameter_code''
      \<and> cell_of r' ''statistic_id'' = cell_of r ''statistic_id''
      \<and> cell_of r' ''monitoring_location_name'' = cell_of r ''monitoring_location_name''
      \<and> cell_of r' ''site_type'' = cell_of r ''site_type''
      \<and> cell_of r' ''unit_of_measure'' = cell_of r ''unit_of_measure''
      \<and> cell_of r' ''approval_status'' = cell_of r ''approval_status''
      \<and> cell_of r' ''agency_name'' = cell_of r ''agency_name''
      \<and> cell_of r' ''state_name'' = cell_of r ''state_name''
      \<and> cell_of r' ''county_name'' = cell_of r ''county_name'')"

definition lookup_pairs :: "string \<Rightarrow> table \<Rightarrow> row list" where
  "lookup_pairs name lookup_df =
     first_occurrences (map (\<lambda>r. [(''id'', cell_of r ''id''), (name, cell_of r name)]) (rows lookup_df))"

definition lookup_matches :: "string \<Rightarrow> table \<Rightarrow> cell \<Rightarrow> row list" where
  "lookup_matches name lookup_df code = filter (\<lambda>r. cell_of r ''id'' = code) (lookup_pairs name lookup_df)"


subsection \<open>Concrete tables\<close>

definition mk_table :: "string list \<Rightarrow> cell list list \<Rightarrow> table" where
  "mk_table cs cells = \<lparr>columns = cs, rows = map (zip cs) cells\<rparr>"

text \<open>
  Parsers that know the texts of the examples: two dates, one modification time and three
  decimal numbers; every other text is unparseable for them.
\<close>

definition example_to_datetime_utc :: "cell \<Rightarrow> int option" where
  "example_to_datetime_utc c =
     (case c of
        CStr s \<Rightarrow> map_of [(''2024-01-05T00:00:00Z'', 1704412800)] s
      | CTime t \<Rightarrow> Some t
      | _ \<Rightarrow> None)"

definition example_to_numeric :: "cell \<Rightarrow> number option" where
  "example_to_numeric c =
     (case c of
        CStr s \<Rightarrow> map_of [(''3.5'', Finite (7 / 2)), (''1.0'', Finite 1), (''3.0'', Finite 3)] s
      | CNum x \<Rightarrow> Some x
      | _ \<Rightarrow> None)"

definition example_astype_str :: "cell \<Rightarrow> string" where
  "example_astype_str c = (case c of CStr s \<Rightarrow> s | CNull \<Rightarrow> ''nan'' | _ \<Rightarrow> ''?'')"

definition example_pandas :: pandas where
  "example_pandas =
     \<lparr>to_datetime = map_of [(''2024-01-01'', 1704067200), (''2024-01-02'', 1704153600)],
      to_datetime_utc = example_to_datetime_utc,
      to_numeric = example_to_numeric,
      astype_str = example_astype_str\<rparr>"

definition example_dv :: table where
  "example_dv =
     mk_table [''id'', ''monitoring_location_id'', ''parameter_code'', ''statistic_id'', ''time'',
               ''value'', ''unit_of_measure'', ''approval_status'', ''qualifier'', ''last_modified'']
       [[CStr ''dv-1'', CStr ''USGS-1'', CStr ''00060'', CStr ''00003'', CStr ''2024-01-01'',
         CStr ''3.5'', CStr ''ft^3/s'', CStr ''Approved'', CNull, CStr ''2024-01-05T00:00:00Z''],
        [CStr ''dv-2'', CStr ''USGS-1'', CStr ''00060'', CStr ''00003'', CStr ''2024-01-02'',
         CStr ''not_a_number'', CStr ''ft^3/s'', CStr ''Approved'', CNull, CStr ''2024-01-05T00:00:00Z''],
        [CStr ''dv-3'', CStr ''USGS-9'', CStr ''00060'', CStr ''00003'', CStr ''garbage'',
         CStr ''1.0'', CStr ''ft^3/s'', CStr ''Provisional'', CStr ''ICE'', CNull]]"

definition example_loc :: table where
  "example_loc =
     mk_table [''id'', ''agency_name'', ''monitoring_location_name'', ''country_name'',
               ''state_name'', ''county_name'', ''site_type'', ''altitude'']
       [[CStr ''USGS-1'', CStr ''U.S. Geological Survey'', CStr ''RIO GRANDE AT OTOWI BRIDGE, NM'',
         CStr ''United States of America'', CStr ''New Mexico'', CStr ''Santa Fe County'',
         CStr ''Stream'', CNum (Finite 5488)]]"

text \<open>The same locations file with the feature of \<open>USGS-1\<close> listed twice.\<close>

definition example_loc_twice :: table where
  "example_loc_twice = example_loc\<lparr>rows := rows example_loc @ rows example_loc\<rparr>"

definition example_param :: table where
  "example_param =
     mk_table [''id'', ''parameter_name'', ''unit_of_measure'']
       [[CStr ''00060'', CStr ''Discharge'', CStr ''ft^3/s''],
        [CStr ''00010'', CStr ''Temperature, water'', CStr ''degC'']]"


definition example_stat :: table where
  "example_stat =
     mk_table [''id'', ''statistic_description'']
       [[CStr ''00003'', CStr ''MEAN''], [CStr ''00003'', CStr ''MEAN'']]"

text \<open>The joined table of the example, and the cleaner run on it once and twice.\<close>

definition example_joined :: table where
  "example_joined =
     mk_table [''id_x'', ''monitoring_location_id'', ''parameter_code'', ''statistic_id'', ''time'',
               ''value'', ''unit_of_measure'', ''approval_status'', ''qualifier'', ''last_modified'',
               ''id_y'', ''agency_name'', ''monitoring_location_name'', ''country_name'',
               ''state_name'', ''county_name'', ''site_type'']
       [[CStr ''dv-1'', CStr ''USGS-1'', CStr ''00060'', CStr ''00003'', CStr ''2024-01-01'',
         CStr ''3.5'', CStr ''ft^3/s'', CStr ''Approved'', CNull, CStr ''2024-01-05T00:00:00Z'',
         CStr ''USGS-1'', CStr ''U.S. Geological Survey'', CStr ''RIO GRANDE AT OTOWI BRIDGE, NM'',
         CStr ''United States of America'', CStr ''New Mexico'', CStr ''Santa Fe County'',
         CStr ''Stream''],
        [CStr ''dv-2'', CStr ''USGS-1'', CStr ''00060'', CStr ''00003'', CStr ''2024-01-02'',
         CStr ''not_a_number'', CStr ''ft^3/s'', CStr ''Approved'', CNull, CStr ''2024-01-05T00:00:00Z'',
         CStr ''USGS-1'', CStr ''U.S. Geological Survey'', CStr ''RIO GRANDE AT OTOWI BRIDGE, NM'',
         CStr ''United States of America'', CStr ''New Mexico'', CStr ''Santa Fe County'',
         CStr ''Stream''],
        [CStr ''dv-3'', CStr ''USGS-9'', CStr ''00060'', CStr ''00003'', CStr ''garbage'',
         CStr ''1.0'', CStr ''ft^3/s'', CStr ''Provisional'', CStr ''ICE'', CNull,
         CNull, CNull, CNull, CNull, CNull, CNull, CNull]]"

definition example_cleaned :: table where
  "example_cleaned =
     mk_table final_cols
       [[CStr ''dv-1'', CStr ''USGS-1'', CStr ''RIO GRANDE AT OTOWI BRIDGE, NM'', CStr ''Stream'',
         CTime 1704067200, CTime 1704412800, CStr ''00060'', CStr ''Discharge'', CNum (Finite (7 / 2)),
         CStr ''ft^3/s'', CStr ''00003'', CStr ''MEAN'', CStr ''Approved'',
         CStr ''U.S. Geological Survey'', CStr ''New Mexico'', CStr ''Santa Fe County''],
        [CStr ''dv-3'', CStr ''USGS-9'', CNull, CNull,
         CNull, CNull, CStr ''00060'', CStr ''Discharge'', CNum (Finite 1),
         CStr ''ft^3/s'', CStr ''00003'', CStr ''MEAN'', CStr ''Provisional'',
         CNull, CNull, CNull]]"

section \<open>Properties of chunk\_list\<close>

lemma concat_slices_take:
  "concat (map (\<lambda>j. take k (drop (j * k) xs)) [0 ..< m]) = take (m * k) xs"
proof (induction m)
  case 0
  show ?case by simp
next
  case (Suc m)
  have "take (m * k) xs @ take k (drop (m * k) xs) = take (m * k + k) xs"
    by (simp add: take_add)
  with Suc show ?case by (simp add: add.commute)
qed

lemma ceil_div_covers:
  assumes "0 < (k::nat)"
  shows "n \<le> ((n + k - 1) div k) * k"
proof -
  have "n + k - 1 < ((n + k - 1) div k) * k + k"
    using assms by (metis add.commute div_mult_mod_eq mod_less_divisor mult.commute nat_add_left_cancel_less)
  then show ?thesis using assms by linarith
qed

lemma ceil_div_tight:
  assumes "0 < (k::nat)" and "j < (n + k - 1) div k"
  shows "j * k < n"
proof -
  have "Suc j \<le> (n + k - 1) div k" using assms(2) by simp
  then have "Suc j * k \<le> ((n + k - 1) div k) * k" by (rule mult_le_mono1)
  also have "\<dots> \<le> n + k - 1" by simp
  finally show ?thesis using assms(1) by simp
qed

lemma chunk_list_pos:
  "0 < cs \<Longrightarrow> chunk_list items cs =
     Inr (map (\<lambda>j. take (nat cs) (drop (j * nat cs) items))
            [0 ..< (length items + nat cs - 1) div nat cs])"
  by (simp add: chunk_list_def py_range0_def py_slice_def comp_def)

text \<open>
  C2. For every list and every positive chunk size, chunk\_list returns chunks of length
  at most the chunk size whose concatenation in order is the original list; every chunk
  is non-empty and every chunk but the last has exactly the chunk size; the empty list
  gives no chunk at all.
\<close>

theorem chunk_list_partition:
  assumes "0 < chunk_size"
  shows "\<exists>chunks. chunk_list items chunk_size = Inr chunks
           \<and> concat chunks = items
           \<and> (\<forall>c \<in> set chunks. c \<noteq> [] \<and> int (length c) \<le> chunk_size)
           \<and> (\<forall>i. Suc i < length chunks \<longrightarrow> int (length (chunks ! i)) = chunk_size)
           \<and> (items = [] \<longrightarrow> chunks = [])"
proof -
  define k where "k = nat chunk_size"
  define m where "m = (length items + k - 1) div k"
  define chunks where "chunks = map (\<lambda>j. take k (drop (j * k) items)) [0 ..< m]"
  have k: "0 < k" "int k = chunk_size" using assms by (simp_all add: k_def)
  have run: "chunk_list items chunk_size = Inr chunks"
    using chunk_list_pos [OF assms] by (simp add: chunks_def m_def k_def)
  have "concat chunks = take (m * k) items"
    by (simp add: chunks_def concat_slices_take)
  moreover have "length items \<le> m * k"
    unfolding m_def by (rule ceil_div_covers [OF k(1)])
  ultimately have cat: "concat chunks = items" by simp
  have each: "c \<noteq> [] \<and> int (length c) \<le> chunk_size" if "c \<in> set chunks" for c
  proof -
    from that obtain j where j: "j < m" and c: "c = take k (drop (j * k) items)"
      by (auto simp: chunks_def)
    have "j * k < length items"
      using ceil_div_tight [OF k(1), of j "length items"] j unfolding m_def by blast
    with k c show ?thesis by auto
  qed
  have full: "int (length (chunks ! i)) = chunk_size" if "Suc i < length chunks" for i
  proof -
    have i: "Suc i < m" using that by (simp add: chunks_def)
    have "Suc i * k < length items"
      using ceil_div_tight [OF k(1), of "Suc i" "length items"] i unfolding m_def by blast
    then have "i * k + k \<le> length items" by simp
    moreover have "chunks ! i = take k (drop (i * k) items)"
      using i by (simp add: chunks_def)
    ultimately show ?thesis using k by simp
  qed
  have emp: "chunks = []" if "items = []"
    using that k by (simp add: chunks_def m_def)
  show ?thesis using run cat each full emp by blast
qed

theorem chunk_list_partition_witness:
  "chunk_list ''abcde'' 2 = Inr [''ab'', ''cd'', ''e'']
   \<and> chunk_list ([] :: char list) 2 = Inr []"
proof -
  have "\<exists>chunks. chunk_list ''abcde'' 2 = Inr chunks \<and> concat chunks = ''abcde''"
    using chunk_list_partition [of 2 "''abcde''"] by auto
  moreover have "chunk_list ''abcde'' 2 = Inr [''ab'', ''cd'', ''e'']"
    by (simp add: chunk_list_def py_range0_def py_slice_def upt_rec)
  moreover have "chunk_list ([] :: char list) 2 = Inr []"
    by (simp add: chunk_list_def py_range0_def)
  ultimately show ?thesis by simp
qed

section \<open>Properties of extract\_location\_ids\<close>

lemma append_feature_id_dict:
  "append_feature_id repr (JObj d) ids =
     Inr (case spec_identifier d of None \<Rightarrow> ids | Some v \<Rightarrow> ids @ [py_str repr v])"
  by (auto simp: append_feature_id_def py_get_attr_def py_get_def py_getitem_def props_has_id_def
        spec_identifier_def top_level_id_def split: option.splits json.splits)

lemma collect_ids_dicts:
  "\<forall>f \<in> set fs. is_dict f \<Longrightarrow>
   collect_ids repr fs ids =
     Inr (ids @ map (py_str repr) (List.map_filter (\<lambda>f. spec_identifier (the_dict f)) fs))"
proof (induction fs arbitrary: ids)
  case Nil
  show ?case by (simp add: List.map_filter_simps)
next
  case (Cons f fs)
  then obtain d where f: "f = JObj d" by (cases f) auto
  from Cons show ?case
    by (simp add: f append_feature_id_dict List.map_filter_simps split: option.splits)
qed

lemma first_occurrences_filter:
  "first_occurrences (filter P xs) = filter P (first_occurrences xs)"
proof (induction xs)
  case Nil show ?case by simp
next
  case (Cons x xs)
  then show ?case by (auto simp: conj_commute intro: filter_cong)
qed

lemma dedupe_eq:
  "dedupe xs seen out = out @ first_occurrences (filter (\<lambda>x. x \<notin> seen) xs)"
proof (induction xs arbitrary: seen out)
  case Nil show ?case by simp
next
  case (Cons x xs)
  have "first_occurrences (filter (\<lambda>y. y \<noteq> x \<and> y \<notin> seen) xs)
        = filter (\<lambda>y. y \<noteq> x) (first_occurrences (filter (\<lambda>y. y \<notin> seen) xs))"
    by (simp add: first_occurrences_filter [symmetric] conj_commute)
  with Cons show ?case by simp
qed

lemma set_first_occurrences: "set (first_occurrences xs) = set xs"
  by (induction xs) auto

lemma distinct_first_occurrences: "distinct (first_occurrences xs)"
  by (induction xs) (auto simp: set_first_occurrences)

lemma first_occurrences_index:
  "first_occurrences xs =
     map (\<lambda>i. xs ! i) (filter (\<lambda>i. xs ! i \<notin> set (take i xs)) [0 ..< length xs])"
proof (induction xs)
  case Nil show ?case by simp
next
  case (Cons x xs)
  have "filter (\<lambda>i. (x # xs) ! i \<notin> set (take i (x # xs))) [0 ..< length (x # xs)]
        = 0 # map Suc (filter (\<lambda>i. xs ! i \<notin> set (take i xs) \<and> xs ! i \<noteq> x) [0 ..< length xs])"
    by (simp add: upt_conv_Cons map_Suc_upt [symmetric] filter_map comp_def conj_commute del: upt_Suc)
  then show ?case
    by (simp add: Cons filter_map comp_def del: upt_Suc) 
qed

text \<open>
  C3. For every Feature Collection (an object whose \<open>features\<close> is a list of objects),
  extract\_location\_ids takes each feature's identifier from \<open>properties.id\<close> when
  present and truthy, otherwise from the top-level \<open>id\<close> when present and truthy, skips a
  feature with neither, turns each identifier into a string, and returns the identifiers
  without duplicates, each at the place of its first occurrence.
\<close>

theorem extract_location_ids_first_seen:
  assumes "map_of c ''features'' = Some (JArr fs)" and "\<forall>f \<in> set fs. is_dict f"
  shows "let ids = map (py_str repr) (List.map_filter (\<lambda>f. spec_identifier (the_dict f)) fs);
             out = first_occurrences ids
         in extract_location_ids repr (JObj c) = Inr out
            \<and> distinct out
            \<and> set out = set ids
            \<and> out = map (\<lambda>i. ids ! i) (filter (\<lambda>i. ids ! i \<notin> set (take i ids)) [0 ..< length ids])"
proof -
  define ids where "ids = map (py_str repr) (List.map_filter (\<lambda>f. spec_identifier (the_dict f)) fs)"
  have "collect_ids repr fs [] = Inr ids"
    using collect_ids_dicts [OF assms(2)] by (simp add: ids_def)
  then have "extract_location_ids repr (JObj c) = Inr (first_occurrences ids)"
    using assms(1)
    by (simp add: extract_location_ids_def py_get_attr_def py_get_def py_iter_def dedupe_eq)
  moreover have "first_occurrences ids
      = map (\<lambda>i. ids ! i) (filter (\<lambda>i. ids ! i \<notin> set (take i ids)) [0 ..< length ids])"
    by (rule first_occurrences_index)
  ultimately show ?thesis
    unfolding Let_def ids_def [symmetric]
    using distinct_first_occurrences [of ids] set_first_occurrences [of ids] by simp
qed

theorem extract_location_ids_first_seen_witness:
  "map_of [(''type'', JStr ''FeatureCollection''),
           (''features'', JArr [JObj [(''properties'', JObj [(''id'', JStr ''a'')])],
                                JObj [(''id'', JStr ''b'')],
                                JObj [(''properties'', JObj [(''id'', JStr [])]), (''id'', JStr ''a'')],
                                JObj [(''properties'', JNull)]])] ''features''
     = Some (JArr [JObj [(''properties'', JObj [(''id'', JStr ''a'')])],
                   JObj [(''id'', JStr ''b'')],
                   JObj [(''properties'', JObj [(''id'', JStr [])]), (''id'', JStr ''a'')],
                   JObj [(''properties'', JNull)]])
   \<and> list_all is_dict [JObj [(''properties'', JObj [(''id'', JStr ''a'')])],
                   JObj [(''id'', JStr ''b'')],
                   JObj [(''properties'', JObj [(''id'', JStr [])]), (''id'', JStr ''a'')],
                   JObj [(''properties'', JNull)]]
   \<and> extract_location_ids (\<lambda>v. ''?'')
        (JObj [(''type'', JStr ''FeatureCollection''),
               (''features'', JArr [JObj [(''properties'', JObj [(''id'', JStr ''a'')])],
                                    JObj [(''id'', JStr ''b'')],
                                    JObj [(''properties'', JObj [(''id'', JStr [])]), (''id'', JStr ''a'')],
                                    JObj [(''properties'', JNull)]])])
     = Inr [''a'', ''b'']"
  using extract_location_ids_first_seen
     [of "[(''type'', JStr ''FeatureCollection''),
           (''features'', JArr [JObj [(''properties'', JObj [(''id'', JStr ''a'')])],
                                JObj [(''id'', JStr ''b'')],
                                JObj [(''properties'', JObj [(''id'', JStr [])]), (''id'', JStr ''a'')],
                                JObj [(''properties'', JNull)]])]"
         "[JObj [(''properties'', JObj [(''id'', JStr ''a'')])],
           JObj [(''id'', JStr ''b'')],
           JObj [(''properties'', JObj [(''id'', JStr [])]), (''id'', JStr ''a'')],
           JObj [(''properties'', JNull)]]"
         "\<lambda>v. ''?''"]
  by (simp add: Let_def List.map_filter_simps spec_identifier_def top_level_id_def py_str_def)

section \<open>Properties of fetch\_daily\_values\_for\_locations\<close>

lemma response_features_extend:
  "extend_features fs (JObj d) = Inr (fs @ response_features d)"
  by (auto simp: extend_features_def py_get_attr_def py_get_def response_features_def
        split: option.splits json.splits)

lemma fetch_batches_ok:
  assumes "dict_of rt (cfg_params_base cfg) = Inr params0"
    and "\<forall>i < length bs.
           http_get rt (length issued + i)
             (batch_request (cfg_base_url cfg) params0 (cfg_timeout cfg) (cfg_time_range cfg) (bs ! i))
           = Inr (JObj (resp (length issued + i)))"
  shows "\<exists>meta. fetch_batches rt cfg bs fs m issued =
           (Inr (fs @ concat (map (\<lambda>i. response_features (resp (length issued + i))) [0 ..< length bs]), meta),
            issued @ map (batch_request (cfg_base_url cfg) params0 (cfg_timeout cfg) (cfg_time_range cfg)) bs)"
  using assms(2)
proof (induction bs arbitrary: fs m issued)
  case Nil
  show ?case by simp
next
  case (Cons b bs)
  let ?req = "batch_request (cfg_base_url cfg) params0 (cfg_timeout cfg) (cfg_time_range cfg)"
  from Cons.prems have first: "http_get rt (length issued) (?req b) = Inr (JObj (resp (length issued)))"
    by force
  obtain meta' where meta': "keep_meta m (JObj (resp (length issued))) = Inr meta'"
    by (cases m) (auto simp: keep_meta_def)
  have rest: "\<forall>i < length bs.
           http_get rt (length (issued @ [?req b]) + i) (?req (bs ! i))
           = Inr (JObj (resp (length (issued @ [?req b]) + i)))"
    using Cons.prems by force
  from Cons.IH [OF rest] obtain meta where
    "fetch_batches rt cfg bs (fs @ response_features (resp (length issued))) meta' (issued @ [?req b]) =
       (Inr ((fs @ response_features (resp (length issued)))
              @ concat (map (\<lambda>i. response_features (resp (length (issued @ [?req b]) + i))) [0 ..< length bs]), meta),
        (issued @ [?req b]) @ map ?req bs)"
    by blast
  moreover have "concat (map (\<lambda>i. response_features (resp (length issued + i))) [0 ..< length (b # bs)])
      = response_features (resp (length issued))
        @ concat (map (\<lambda>i. response_features (resp (length (issued @ [?req b]) + i))) [0 ..< length bs])"
    by (simp add: upt_conv_Cons map_Suc_upt [symmetric] comp_def del: upt_Suc)
  ultimately show ?case
    using assms(1) first meta'
    by (simp add: response_features_extend del: upt_Suc)
qed

lemma map_of_combine:
  "map_of (combine cfg fs m) ''features'' = Some (JArr fs)"
  "map_of (combine cfg fs m) ''numberReturned'' = Some (JInt (int (length fs)))"
  "map_of (combine cfg fs m) ''total_features'' = Some (JInt (int (length fs)))"
  "map_of (combine cfg fs m) ''batches'' = Some (JInt (int (length (cfg_batches cfg))))"
  "map_of (combine cfg fs m) ''batch_size'' = Some (JInt (cfg_batch_size cfg))"
  "map_of (combine cfg fs m) ''time_range'' = Some (JStr (cfg_time_range cfg))"
  by (simp_all add: combine_def update_conv')

text \<open>
  C1. For every run in which the set-up succeeds and every batch request is answered with
  a JSON object, the combined result's \<open>features\<close> is the concatenation, in batch order, of
  the feature lists of the responses, where a response whose \<open>features\<close> is missing or not
  a list contributes nothing and raises nothing; \<open>numberReturned\<close> and \<open>total_features\<close>
  are the length of that list, and \<open>batches\<close> is the number of batches, one request each.
\<close>

theorem aggregator_concatenates:
  assumes "fetch_setup rt locations_json = Inr cfg"
    and "dict_of rt (cfg_params_base cfg) = Inr params0"
    and "\<forall>i < length (cfg_batches cfg).
           http_get rt i
             (batch_request (cfg_base_url cfg) params0 (cfg_timeout cfg) (cfg_time_range cfg)
                (cfg_batches cfg ! i))
           = Inr (JObj (resp i))"
  shows "\<exists>combined.
           fetch_daily_values_for_locations rt locations_json =
             (Inr combined,
              map (batch_request (cfg_base_url cfg) params0 (cfg_timeout cfg) (cfg_time_range cfg))
                (cfg_batches cfg))
           \<and> map_of combined ''features'' =
               Some (JArr (concat (map (\<lambda>i. response_features (resp i)) [0 ..< length (cfg_batches cfg)])))
           \<and> map_of combined ''numberReturned'' =
               Some (JInt (int (length (concat (map (\<lambda>i. response_features (resp i)) [0 ..< length (cfg_batches cfg)])))))
           \<and> map_of combined ''total_features'' =
               Some (JInt (int (length (concat (map (\<lambda>i. response_features (resp i)) [0 ..< length (cfg_batches cfg)])))))
           \<and> map_of combined ''batches'' = Some (JInt (int (length (cfg_batches cfg))))"
proof -
  let ?req = "batch_request (cfg_base_url cfg) params0 (cfg_timeout cfg) (cfg_time_range cfg)"
  let ?all = "concat (map (\<lambda>i. response_features (resp i)) [0 ..< length (cfg_batches cfg)])"
  have "\<forall>i < length (cfg_batches cfg).
          http_get rt (length ([] :: request list) + i) (?req (cfg_batches cfg ! i))
          = Inr (JObj (resp (length ([] :: request list) + i)))"
    using assms(3) by simp
  from fetch_batches_ok [OF assms(2) this, of "[]" None]
  obtain meta where "fetch_batches rt cfg (cfg_batches cfg) [] None [] =
      (Inr (?all, meta), map ?req (cfg_batches cfg))"
    by auto
  then have "fetch_daily_values_for_locations rt locations_json =
      (Inr (combine cfg ?all meta), map ?req (cfg_batches cfg))"
    using assms(1) by (simp add: fetch_daily_values_for_locations_def)
  then show ?thesis
    using map_of_combine [of cfg ?all meta] by blast
qed

lemma example_setup:
  "fetch_setup (example_runtime example_environ) example_locations = Inr example_config"
  by (simp add: fetch_setup_def require_env_def example_runtime_def example_environ_def
        py_int_def py_int_of_string_def strip_def is_space_def digit_val_def
        extract_location_ids_def example_locations_def py_get_attr_def py_get_def py_iter_def
        append_feature_id_def props_has_id_def py_getitem_def py_str_def
        calculate_time_range_def datetime_min_def datetime_max_def example_strftime_def
        chunk_list_def py_range0_def py_slice_def upt_rec example_config_def)

theorem aggregator_concatenates_witness:
  "\<exists>combined issued.
     fetch_daily_values_for_locations (example_runtime example_environ) example_locations
       = (Inr combined, issued)
     \<and> length issued = 2
     \<and> map_of combined ''features'' =
         Some (JArr [JStr ''f1'', JStr ''f2'', JStr ''f3'', JStr ''g1'', JStr ''g2''])
     \<and> map_of combined ''numberReturned'' = Some (JInt 5)
     \<and> map_of combined ''total_features'' = Some (JInt 5)
     \<and> map_of combined ''batches'' = Some (JInt 2)"
proof -
  define resp :: "nat \<Rightarrow> dict" where
    "resp = (\<lambda>i. if i = 0
       then [(''type'', JStr ''FeatureCollection''),
             (''features'', JArr [JStr ''f1'', JStr ''f2'', JStr ''f3'']),
             (''numberReturned'', JInt 3)]
       else [(''type'', JStr ''FeatureCollection''),
             (''features'', JArr [JStr ''g1'', JStr ''g2'']),
             (''numberReturned'', JInt 2)])"
  have d: "dict_of (example_runtime example_environ) (cfg_params_base example_config) = Inr []"
    by (simp add: example_runtime_def example_dict_of_def example_config_def)
  have r: "\<forall>i < length (cfg_batches example_config).
             http_get (example_runtime example_environ) i
               (batch_request (cfg_base_url example_config) [] (cfg_timeout example_config)
                  (cfg_time_range example_config) (cfg_batches example_config ! i))
             = Inr (JObj (resp i))"
    by (auto simp: example_runtime_def example_server_def resp_def example_config_def less_Suc_eq)
  show ?thesis
    using aggregator_concatenates [OF example_setup d r]
    by (auto simp: resp_def response_features_def upt_rec example_config_def)
qed

















section \<open>Properties of the table operations\<close>

lemma rows_matchD: "rows_match t \<Longrightarrow> r \<in> set (rows t) \<Longrightarrow> map fst r = columns t"
  by (simp add: rows_match_def list_all_iff)

lemma rows_matchI: "(\<And>r. r \<in> set (rows t) \<Longrightarrow> map fst r = columns t) \<Longrightarrow> rows_match t"
  by (simp add: rows_match_def list_all_iff)

lemma map_fst_map_entry: "map fst (AList.map_entry c f r) = map fst r"
  by (induction r) auto

lemma map_fst_delete: "map fst (AList.delete c r) = filter (\<lambda>k. k \<noteq> c) (map fst r)"
  by (induction r) auto

lemma cell_of_map_entry:
  "cell_of (AList.map_entry c f r) k =
     (if k = c \<and> c \<in> fst ` set r then f (cell_of r c) else cell_of r k)"
  by (induction r) (force simp: cell_of_def)+

lemma cell_of_delete: "k \<noteq> c \<Longrightarrow> cell_of (AList.delete c r) k = cell_of r k"
  by (simp add: cell_of_def delete_conv')

lemma cell_of_select: "c \<in> set cs \<Longrightarrow> cell_of (map (\<lambda>c. (c, cell_of r c)) cs) c = cell_of r c"
proof -
  assume "c \<in> set cs"
  then have "map_of (map (\<lambda>c. (c, cell_of r c)) cs) c = Some (cell_of r c)"
    by (induction cs) auto
  then show ?thesis by (simp add: cell_of_def)
qed

lemma map_of_rename_keys:
  assumes "inj_on f (fst ` set r)" and "k \<in> fst ` set r"
  shows "map_of (rename_keys f r) (f k) = map_of r k"
  using assms
proof (induction r)
  case Nil
  then show ?case by simp
next
  case (Cons p r)
  obtain a b where p: "p = (a, b)" by (cases p)
  show ?case
  proof (cases "k = a")
    case True
    then show ?thesis by (simp add: p rename_keys_def)
  next
    case False
    with Cons.prems have k: "k \<in> fst ` set r" by (auto simp: p)
    have "f k \<noteq> f a" using Cons.prems False by (auto simp: p inj_on_def)
    moreover have "inj_on f (fst ` set r)" using Cons.prems(1) by (auto simp: p inj_on_def)
    ultimately show ?thesis
      using Cons.IH k False by (simp add: p rename_keys_def)
  qed
qed

lemma map_fst_rename_keys: "map fst (rename_keys f r) = map f (map fst r)"
  by (simp add: rename_keys_def case_prod_unfold comp_def)

lemma cell_of_append_left:
  "k \<in> fst ` set a \<Longrightarrow> cell_of (a @ b) k = cell_of a k"
  by (cases "map_of a k") (auto simp: cell_of_def map_add_def map_of_eq_None_iff)

lemma cell_of_append_right:
  "k \<notin> fst ` set a \<Longrightarrow> cell_of (a @ b) k = cell_of b k"
  by (cases "map_of b k") (auto simp: cell_of_def map_add_def map_of_eq_None_iff [symmetric])

lemma cell_of_nulls: "cell_of (map (\<lambda>c. (g c, CNull)) cs) k = CNull"
proof -
  have "map_of (map (\<lambda>c. (g c, CNull)) cs) k = None \<or> map_of (map (\<lambda>c. (g c, CNull)) cs) k = Some CNull"
    by (induction cs) auto
  then show ?thesis by (auto simp: cell_of_def)
qed

lemma suffixed_Nil: "suffixed [] sfx = (\<lambda>c. c)"
  by (simp add: suffixed_def fun_eq_iff)

lemma merge_left_Inr:
  assumes "merge_left L R a b = Inr M"
  defines "ov \<equiv> filter (\<lambda>c. c \<in> set (columns R)) (columns L)"
  shows "columns M = map (suffixed ov ''_x'') (columns L) @ map (suffixed ov ''_y'') (columns R)"
    and "rows M = concat (map (merge_row (suffixed ov ''_x'') (suffixed ov ''_y'') (columns R) a b (rows R)) (rows L))"
    and "a \<in> set (columns L)" and "b \<in> set (columns R)"
    and "inj_on (suffixed ov ''_x'') (set (columns L))"
    and "inj_on (suffixed ov ''_y'') (set (columns R))"
proof -
  from assms(1) have a: "a \<in> set (columns L)" and b: "b \<in> set (columns R)"
    by (auto simp: merge_left_def split: if_splits)
  from assms(1) a b have ok: "ov = [] \<or> (distinct (map (suffixed ov ''_x'') (columns L))
        \<and> distinct (map (suffixed ov ''_y'') (columns R)))"
    by (auto simp: merge_left_def Let_def ov_def split: if_splits)
  from assms(1) a b have M: "M = \<lparr>columns = map (suffixed ov ''_x'') (columns L) @ map (suffixed ov ''_y'') (columns R),
       rows = concat (map (merge_row (suffixed ov ''_x'') (suffixed ov ''_y'') (columns R) a b (rows R)) (rows L))\<rparr>"
    by (auto simp: merge_left_def Let_def ov_def split: if_splits)
  show "columns M = map (suffixed ov ''_x'') (columns L) @ map (suffixed ov ''_y'') (columns R)"
    by (simp add: M)
  show "rows M = concat (map (merge_row (suffixed ov ''_x'') (suffixed ov ''_y'') (columns R) a b (rows R)) (rows L))"
    by (simp add: M)
  show "a \<in> set (columns L)" by (rule a)
  show "b \<in> set (columns R)" by (rule b)
  show "inj_on (suffixed ov ''_x'') (set (columns L))"
    using ok by (auto simp: suffixed_Nil distinct_map)
  show "inj_on (suffixed ov ''_y'') (set (columns R))"
    using ok by (auto simp: suffixed_Nil distinct_map)
qed

lemma merge_row_length:
  "length (merge_row lname rname rcols a b rrows l)
     = max 1 (length (filter (\<lambda>r. cell_of r b = cell_of l a) rrows))"
  by (auto simp: merge_row_def split: list.splits)

lemma merge_row_take:
  assumes "r' \<in> set (merge_row lname rname rcols a b rrows l)"
  shows "take (length l) r' = rename_keys lname l"
  using assms by (auto simp: merge_row_def rename_keys_def split: list.splits)

lemma merge_row_matched:
  assumes "r' \<in> set (merge_row lname rname rcols a b rrows l)"
    and "filter (\<lambda>r. cell_of r b = cell_of l a) rrows \<noteq> []"
  shows "\<exists>m \<in> set rrows. cell_of m b = cell_of l a \<and> r' = rename_keys lname l @ rename_keys rname m"
proof -
  let ?ms = "filter (\<lambda>r. cell_of r b = cell_of l a) rrows"
  from assms(2) have "merge_row lname rname rcols a b rrows l
      = map (\<lambda>r. rename_keys lname l @ rename_keys rname r) ?ms"
    by (cases ?ms) (simp_all add: merge_row_def)
  with assms(1) obtain m where "m \<in> set ?ms" and "r' = rename_keys lname l @ rename_keys rname m"
    by auto
  then show ?thesis by auto
qed

lemma merge_row_unmatched:
  assumes "r' \<in> set (merge_row lname rname rcols a b rrows l)"
    and "filter (\<lambda>r. cell_of r b = cell_of l a) rrows = []"
  shows "r' = rename_keys lname l @ map (\<lambda>c. (rname c, CNull)) rcols"
  using assms by (simp add: merge_row_def)

lemma merge_row_cell_left:
  assumes "r' \<in> set (merge_row lname rname rcols a b rrows l)"
    and "inj_on lname (fst ` set l)" and "c \<in> fst ` set l"
  shows "cell_of r' (lname c) = cell_of l c"
proof -
  from assms(1) obtain rest where r': "r' = rename_keys lname l @ rest"
    by (cases "filter (\<lambda>r. cell_of r b = cell_of l a) rrows") (auto simp: merge_row_def)
  have "lname c \<in> fst ` set (rename_keys lname l)"
    using assms(3) by (force simp: rename_keys_def)
  then have "cell_of r' (lname c) = cell_of (rename_keys lname l) (lname c)"
    by (simp add: r' cell_of_append_left)
  also have "\<dots> = cell_of l c"
    using map_of_rename_keys [OF assms(2,3)] by (simp add: cell_of_def)
  finally show ?thesis .
qed

lemma filter_key_le_one:
  "distinct (map f xs) \<Longrightarrow> length (filter (\<lambda>x. f x = v) xs) \<le> 1"
proof (induction xs)
  case Nil
  show ?case by simp
next
  case (Cons x xs)
  show ?case
  proof (cases "f x = v")
    case True
    with Cons.prems have "\<forall>y \<in> set xs. f y \<noteq> v"
      by (metis distinct.simps(2) imageI list.simps(9) set_map)
    then have "filter (\<lambda>y. f y = v) xs = []"
      by (simp add: filter_empty_conv)
    with True show ?thesis by simp
  next
    case False
    with Cons show ?thesis by simp
  qed
qed

lemma length_concat_singletons:
  "(\<And>g. g \<in> set gs \<Longrightarrow> length g = 1) \<Longrightarrow> length (concat gs) = length gs"
  by (induction gs) auto

lemma select_columns_Inr:
  assumes "select_columns cs t = Inr s"
  shows "columns s = cs" and "rows s = map (\<lambda>r. map (\<lambda>c. (c, cell_of r c)) cs) (rows t)"
    and "set cs \<subseteq> set (columns t)"
proof -
  from assms have e: "filter (\<lambda>c. c \<notin> set (columns t)) cs = []"
    by (auto simp: select_columns_def split: list.splits)
  with assms show "columns s = cs" and "rows s = map (\<lambda>r. map (\<lambda>c. (c, cell_of r c)) cs) (rows t)"
    by (auto simp: select_columns_def)
  from e show "set cs \<subseteq> set (columns t)" by (auto simp: filter_empty_conv)
qed

lemma rows_match_select: "select_columns cs t = Inr s \<Longrightarrow> rows_match s"
  by (auto simp: select_columns_Inr rows_match_def list_all_iff comp_def)

section \<open>Properties of join\_daily\_values\_with\_locations\<close>

lemma join_Inr:
  assumes "join_daily_values_with_locations dv_df loc_df = Inr out"
  shows "columns out = map (dv_name dv_df) (columns dv_df) @ map (loc_name dv_df) loc_keep"
    and "rows out = concat (map (merge_row (dv_name dv_df) (loc_name dv_df) loc_keep
                                   ''monitoring_location_id'' ''id''
                                   (map (\<lambda>r. map (\<lambda>c. (c, cell_of r c)) loc_keep) (rows loc_df)))
                               (rows dv_df))"
    and "set loc_keep \<subseteq> set (columns loc_df)"
    and "''monitoring_location_id'' \<in> set (columns dv_df)"
    and "inj_on (dv_name dv_df) (set (columns dv_df))"
proof -
  from assms obtain sel where sel: "select_columns loc_keep loc_df = Inr sel"
    and m: "merge_left dv_df sel ''monitoring_location_id'' ''id'' = Inr out"
    by (auto simp: join_daily_values_with_locations_def split: sum.splits)
  note s = select_columns_Inr [OF sel]
  have names: "suffixed (filter (\<lambda>c. c \<in> set loc_keep) (columns dv_df)) ''_x'' = dv_name dv_df"
    "suffixed (filter (\<lambda>c. c \<in> set loc_keep) (columns dv_df)) ''_y'' = loc_name dv_df"
    by (simp_all add: dv_name_def loc_name_def fun_eq_iff)
  show "columns out = map (dv_name dv_df) (columns dv_df) @ map (loc_name dv_df) loc_keep"
    using merge_left_Inr(1) [OF m] by (simp only: names s(1))
  show "rows out = concat (map (merge_row (dv_name dv_df) (loc_name dv_df) loc_keep
                                   ''monitoring_location_id'' ''id''
                                   (map (\<lambda>r. map (\<lambda>c. (c, cell_of r c)) loc_keep) (rows loc_df)))
                               (rows dv_df))"
    using merge_left_Inr(2) [OF m] by (simp only: names s(1) s(2))
  show "set loc_keep \<subseteq> set (columns loc_df)" by (rule s(3))
  show "''monitoring_location_id'' \<in> set (columns dv_df)" by (rule merge_left_Inr(3) [OF m])
  show "inj_on (dv_name dv_df) (set (columns dv_df))"
    using merge_left_Inr(5) [OF m] by (simp only: s(1) names)
qed

lemma matching_selected:
  "filter (\<lambda>r. cell_of r ''id'' = v) (map (\<lambda>r. map (\<lambda>c. (c, cell_of r c)) loc_keep) rs)
     = map (\<lambda>r. map (\<lambda>c. (c, cell_of r c)) loc_keep) (filter (\<lambda>r. cell_of r ''id'' = v) rs)"
proof -
  have "cell_of (map (\<lambda>c. (c, cell_of r c)) loc_keep) ''id'' = cell_of r ''id''" for r
    by (rule cell_of_select) (simp add: loc_keep_def)
  then show ?thesis by (simp add: filter_map comp_def)
qed

lemma concat_singletons_nth:
  "(\<And>g. g \<in> set gs \<Longrightarrow> length g = 1) \<Longrightarrow> i < length gs \<Longrightarrow> concat gs ! i = hd (gs ! i)"
proof (induction gs arbitrary: i)
  case Nil
  then show ?case by simp
next
  case (Cons g gs)
  from Cons.prems(1) [of g] obtain x where g: "g = [x]"
    by (cases g) auto
  show ?case
  proof (cases i)
    case 0
    then show ?thesis by (simp add: g)
  next
    case (Suc j)
    with Cons show ?thesis by (simp add: g)
  qed
qed

text \<open>
  C8 (as amended). The join drops no row of the daily values: every row yields, in order,
  one joined row for each location row with its identifier, and exactly one when there is
  none; each of them starts with the cells of the daily-values row, and in the unmatched
  case continues with a missing value in each of the seven location columns. When no two
  location rows share an identifier, the joined table has exactly the rows of the
  daily-values table.
\<close>

theorem join_keeps_every_row:
  assumes "join_daily_values_with_locations dv_df loc_df = Inr out" and "rows_match dv_df"
  shows "\<exists>groups.
           rows out = concat groups \<and> length groups = length (rows dv_df)
         \<and> (\<forall>i < length (rows dv_df).
               length (groups ! i) = max 1 (length (matching_locations loc_df (rows dv_df ! i)))
             \<and> (\<forall>r' \<in> set (groups ! i).
                   take (length (columns dv_df)) r' = rename_keys (dv_name dv_df) (rows dv_df ! i)
                 \<and> (matching_locations loc_df (rows dv_df ! i) = [] \<longrightarrow>
                      drop (length (columns dv_df)) r'
                        = map (\<lambda>c. (loc_name dv_df c, CNull)) loc_keep)))
         \<and> (distinct (map (\<lambda>r. cell_of r ''id'') (rows loc_df)) \<longrightarrow>
               length (rows out) = length (rows dv_df)
             \<and> (\<forall>i < length (rows dv_df).
                   take (length (columns dv_df)) (rows out ! i)
                     = rename_keys (dv_name dv_df) (rows dv_df ! i)))"
proof -
  let ?sel = "map (\<lambda>r. map (\<lambda>c. (c, cell_of r c)) loc_keep) (rows loc_df)"
  let ?mr = "merge_row (dv_name dv_df) (loc_name dv_df) loc_keep ''monitoring_location_id'' ''id'' ?sel"
  define groups where "groups = map ?mr (rows dv_df)"
  have rows: "rows out = concat groups"
    using join_Inr(2) [OF assms(1)] by (simp add: groups_def)
  have len: "length groups = length (rows dv_df)" by (simp add: groups_def)
  have flt: "filter (\<lambda>r. cell_of r ''id'' = cell_of l ''monitoring_location_id'') ?sel
      = map (\<lambda>r. map (\<lambda>c. (c, cell_of r c)) loc_keep) (matching_locations loc_df l)" for l
    by (simp add: matching_selected matching_locations_def)
  have grp: "length (groups ! i) = max 1 (length (matching_locations loc_df (rows dv_df ! i)))
      \<and> (\<forall>r' \<in> set (groups ! i).
            take (length (columns dv_df)) r' = rename_keys (dv_name dv_df) (rows dv_df ! i)
          \<and> (matching_locations loc_df (rows dv_df ! i) = [] \<longrightarrow>
               drop (length (columns dv_df)) r' = map (\<lambda>c. (loc_name dv_df c, CNull)) loc_keep))"
    if i: "i < length (rows dv_df)" for i
  proof -
    let ?l = "rows dv_df ! i"
    have g: "groups ! i = ?mr ?l" using i by (simp add: groups_def)
    have "map fst ?l = columns dv_df"
      using rows_matchD [OF assms(2)] i by simp
    then have ll: "length ?l = length (columns dv_df)"
      by (metis length_map)
    have 1: "length (groups ! i) = max 1 (length (matching_locations loc_df ?l))"
      by (simp add: g merge_row_length flt)
    have 2: "take (length (columns dv_df)) r' = rename_keys (dv_name dv_df) ?l"
      if "r' \<in> set (groups ! i)" for r'
      using merge_row_take [of r' "dv_name dv_df" "loc_name dv_df" loc_keep
          "''monitoring_location_id''" "''id''" ?sel ?l] that
      by (simp add: g ll)
    have 3: "drop (length (columns dv_df)) r' = map (\<lambda>c. (loc_name dv_df c, CNull)) loc_keep"
      if "r' \<in> set (groups ! i)" and "matching_locations loc_df ?l = []" for r'
    proof -
      have "r' = rename_keys (dv_name dv_df) ?l @ map (\<lambda>c. (loc_name dv_df c, CNull)) loc_keep"
        using that by (intro merge_row_unmatched [where a = "''monitoring_location_id''" and b = "''id''" and rrows = ?sel and lname = "dv_name dv_df"])
          (simp_all add: g flt)
      then show ?thesis by (simp add: rename_keys_def ll)
    qed
    from 1 2 3 show ?thesis by blast
  qed
  have one: "length (rows out) = length (rows dv_df)
      \<and> (\<forall>i < length (rows dv_df).
            take (length (columns dv_df)) (rows out ! i) = rename_keys (dv_name dv_df) (rows dv_df ! i))"
    if d: "distinct (map (\<lambda>r. cell_of r ''id'') (rows loc_df))"
  proof -
    have single: "length g = 1" if "g \<in> set groups" for g
    proof -
      from that obtain i where i: "i < length (rows dv_df)" and g: "g = groups ! i"
        by (metis in_set_conv_nth len)
      have "length (matching_locations loc_df (rows dv_df ! i)) \<le> 1"
        unfolding matching_locations_def by (rule filter_key_le_one [OF d])
      with grp [OF i] show ?thesis by (simp add: g)
    qed
    have l: "length (rows out) = length (rows dv_df)"
      using length_concat_singletons [of groups] single by (simp add: rows len)
    have "take (length (columns dv_df)) (rows out ! i) = rename_keys (dv_name dv_df) (rows dv_df ! i)"
      if i: "i < length (rows dv_df)" for i
    proof -
      have "rows out ! i = hd (groups ! i)"
        using concat_singletons_nth [of groups i] single i by (simp add: rows len)
      moreover have "length (groups ! i) = 1"
        using single [of "groups ! i"] i len by simp
      then have "hd (groups ! i) \<in> set (groups ! i)"
        by (metis hd_in_set length_0_conv zero_neq_one)
      ultimately show ?thesis using grp [OF i] by simp
    qed
    with l show ?thesis by blast
  qed
  from rows len grp one show ?thesis by blast
qed

theorem join_keeps_every_row_witness:
  "rows_match example_dv
   \<and> map_sum id (\<lambda>t. length (rows t)) (join_daily_values_with_locations example_dv example_loc) = Inr 3
   \<and> length (rows example_dv) = 3"
proof -
  have m: "rows_match example_dv"
    by (simp add: rows_match_def example_dv_def mk_table_def)
  obtain out where out: "join_daily_values_with_locations example_dv example_loc = Inr out"
    by (simp add: join_daily_values_with_locations_def select_columns_def merge_left_def
        example_dv_def example_loc_def mk_table_def loc_keep_def Let_def suffixed_def)
  have d: "distinct (map (\<lambda>r. cell_of r ''id'') (rows example_loc))"
    by (simp add: example_loc_def mk_table_def)
  from join_keeps_every_row [OF out m] d have "length (rows out) = length (rows example_dv)"
    by blast
  moreover have "length (rows example_dv) = 3"
    by (simp add: example_dv_def mk_table_def)
  ultimately show ?thesis using m out by simp
qed

text \<open>
  C8 as stated fails when the locations table lists an identifier twice: each daily-values
  row of that location is then joined twice, so the join adds rows.
\<close>

theorem join_duplicate_location_counterexample:
  "map_sum id (\<lambda>t. length (rows t))
     (join_daily_values_with_locations example_dv example_loc_twice) = Inr 5
   \<and> length (rows example_dv) = 3"
  by (simp add: join_daily_values_with_locations_def select_columns_def merge_left_def
      example_dv_def example_loc_twice_def example_loc_def mk_table_def loc_keep_def Let_def
      suffixed_def merge_row_def cell_of_def)

section \<open>Properties of clean\_and\_transform\_data\<close>

lemma map_column_Inr:
  assumes "map_column c f t = Inr t'"
  shows "columns t' = columns t" and "rows t' = map (AList.map_entry c f) (rows t)"
    and "c \<in> set (columns t)"
  using assms by (auto simp: map_column_def split: if_splits)

lemma dropna_Inr:
  assumes "dropna c t = Inr t'"
  shows "columns t' = columns t" and "rows t' = filter (\<lambda>r. cell_of r c \<noteq> CNull) (rows t)"
    and "c \<in> set (columns t)"
  using assms by (auto simp: dropna_def split: if_splits)

lemma drop_column_Inr:
  assumes "drop_column c t = Inr t'"
  shows "columns t' = filter (\<lambda>k. k \<noteq> c) (columns t)" and "rows t' = map (AList.delete c) (rows t)"
    and "c \<in> set (columns t)"
  using assms by (auto simp: drop_column_def split: if_splits)

lemma rows_match_map_column: "map_column c f t = Inr t' \<Longrightarrow> rows_match t \<Longrightarrow> rows_match t'"
  by (auto simp: map_column_Inr rows_match_def list_all_iff map_fst_map_entry)

lemma rows_match_dropna: "dropna c t = Inr t' \<Longrightarrow> rows_match t \<Longrightarrow> rows_match t'"
  by (auto simp: dropna_Inr rows_match_def list_all_iff)

lemma rows_match_drop_column: "drop_column c t = Inr t' \<Longrightarrow> rows_match t \<Longrightarrow> rows_match t'"
  by (auto simp: drop_column_Inr rows_match_def list_all_iff map_fst_delete)

lemma rows_match_drop_duplicates: "rows_match t \<Longrightarrow> rows_match (drop_duplicates t)"
  by (auto simp: drop_duplicates_def rows_match_def list_all_iff set_first_occurrences)

lemma rows_match_keys: "rows_match t \<Longrightarrow> r \<in> set (rows t) \<Longrightarrow> fst ` set r = set (columns t)"
  by (metis rows_matchD set_map)

text \<open>The typed and trimmed form of one joined row (source lines 92 to 105).\<close>

lemma parse_and_drop_Inr:
  assumes "parse_and_drop pd J = Inr df" and "rows_match J"
  shows "\<exists>g. rows df = map g (kept_rows pd J)
           \<and> (\<forall>r \<in> set (rows J).
                 cell_of (g r) ''value'' = parse_value pd (cell_of r ''value'')
               \<and> cell_of (g r) ''time'' = parse_time pd (cell_of r ''time'')
               \<and> cell_of (g r) ''last_modified'' = parse_last_modified pd (cell_of r ''last_modified'')
               \<and> (\<forall>c. c \<noteq> ''value'' \<and> c \<noteq> ''time'' \<and> c \<noteq> ''last_modified'' \<and> c \<noteq> ''qualifier''
                      \<longrightarrow> cell_of (g r) c = cell_of r c))"
    and "rows_match df"
    and "set (columns df) = set (columns J) - {''qualifier''}"
proof -
  from assms(1) obtain df1 df2 df3 df4 where
    1: "map_column ''time'' (parse_time pd) J = Inr df1"
    and 2: "map_column ''last_modified'' (parse_last_modified pd) df1 = Inr df2"
    and 3: "map_column ''value'' (parse_value pd) df2 = Inr df3"
    and 4: "dropna ''value'' df3 = Inr df4"
    and 5: "(if ''qualifier'' \<in> set (columns df4) then drop_column ''qualifier'' df4 else Inr df4) = Inr df"
    by (auto simp: parse_and_drop_def split: sum.splits)
  define h where "h = (\<lambda>r. AList.map_entry ''value'' (parse_value pd)
      (AList.map_entry ''last_modified'' (parse_last_modified pd)
        (AList.map_entry ''time'' (parse_time pd) r)))"
  define g where "g = (\<lambda>r. if ''qualifier'' \<in> set (columns J) then AList.delete ''qualifier'' (h r) else h r)"
  have cols4: "columns df4 = columns J"
    by (simp add: dropna_Inr(1) [OF 4] map_column_Inr(1) [OF 3] map_column_Inr(1) [OF 2] map_column_Inr(1) [OF 1])
  have in_cols: "''time'' \<in> set (columns J)" "''last_modified'' \<in> set (columns J)" "''value'' \<in> set (columns J)"
    using map_column_Inr(3) [OF 1] map_column_Inr(3) [OF 2] map_column_Inr(3) [OF 3]
    by (simp_all add: map_column_Inr(1) [OF 2] map_column_Inr(1) [OF 1])
  have rows3: "rows df3 = map h (rows J)"
    by (simp add: map_column_Inr(2) [OF 3] map_column_Inr(2) [OF 2] map_column_Inr(2) [OF 1] h_def)
  have hv: "cell_of (h r) ''value'' = parse_value pd (cell_of r ''value'')"
    and ht: "cell_of (h r) ''time'' = parse_time pd (cell_of r ''time'')"
    and hl: "cell_of (h r) ''last_modified'' = parse_last_modified pd (cell_of r ''last_modified'')"
    and ho: "\<And>c. c \<noteq> ''value'' \<Longrightarrow> c \<noteq> ''time'' \<Longrightarrow> c \<noteq> ''last_modified'' \<Longrightarrow> cell_of (h r) c = cell_of r c"
    if "r \<in> set (rows J)" for r
  proof -
    have k: "fst ` set r = set (columns J)" using rows_match_keys [OF assms(2) that] .
    have k1: "fst ` set (AList.map_entry ''time'' (parse_time pd) r) = set (columns J)"
      by (metis k map_fst_map_entry set_map)
    have k2: "fst ` set (AList.map_entry ''last_modified'' (parse_last_modified pd)
        (AList.map_entry ''time'' (parse_time pd) r)) = set (columns J)"
      by (metis k1 map_fst_map_entry set_map)
    show "cell_of (h r) ''value'' = parse_value pd (cell_of r ''value'')"
      using in_cols by (simp add: h_def cell_of_map_entry k k1 k2)
    show "cell_of (h r) ''time'' = parse_time pd (cell_of r ''time'')"
      using in_cols by (simp add: h_def cell_of_map_entry k k1 k2)
    show "cell_of (h r) ''last_modified'' = parse_last_modified pd (cell_of r ''last_modified'')"
      using in_cols by (simp add: h_def cell_of_map_entry k k1 k2)
    show "\<And>c. c \<noteq> ''value'' \<Longrightarrow> c \<noteq> ''time'' \<Longrightarrow> c \<noteq> ''last_modified'' \<Longrightarrow> cell_of (h r) c = cell_of r c"
      by (simp add: h_def cell_of_map_entry)
  qed
  have rows4: "rows df4 = map h (kept_rows pd J)"
  proof -
    have "filter (\<lambda>r. cell_of r ''value'' \<noteq> CNull) (map h (rows J))
        = map h (filter (\<lambda>r. parse_value pd (cell_of r ''value'') \<noteq> CNull) (rows J))"
      unfolding filter_map comp_def
      by (rule arg_cong [where f = "map h"], rule filter_cong) (simp_all add: hv)
    then show ?thesis by (simp add: dropna_Inr(2) [OF 4] rows3 kept_rows_def)
  qed
  have rows: "rows df = map g (kept_rows pd J)"
  proof (cases "''qualifier'' \<in> set (columns J)")
    case True
    with 5 cols4 have "drop_column ''qualifier'' df4 = Inr df" by simp
    from drop_column_Inr(2) [OF this] True show ?thesis by (simp add: rows4 g_def)
  next
    case False
    with 5 cols4 have "df = df4" by simp
    with False show ?thesis by (simp add: rows4 g_def)
  qed
  have cells: "cell_of (g r) ''value'' = parse_value pd (cell_of r ''value'')
               \<and> cell_of (g r) ''time'' = parse_time pd (cell_of r ''time'')
               \<and> cell_of (g r) ''last_modified'' = parse_last_modified pd (cell_of r ''last_modified'')
               \<and> (\<forall>c. c \<noteq> ''value'' \<and> c \<noteq> ''time'' \<and> c \<noteq> ''last_modified'' \<and> c \<noteq> ''qualifier''
                      \<longrightarrow> cell_of (g r) c = cell_of r c)"
    if "r \<in> set (rows J)" for r
    using hv [OF that] ht [OF that] hl [OF that] ho [OF that]
    by (simp add: g_def cell_of_delete)
  from rows cells show "\<exists>g. rows df = map g (kept_rows pd J)
           \<and> (\<forall>r \<in> set (rows J).
                 cell_of (g r) ''value'' = parse_value pd (cell_of r ''value'')
               \<and> cell_of (g r) ''time'' = parse_time pd (cell_of r ''time'')
               \<and> cell_of (g r) ''last_modified'' = parse_last_modified pd (cell_of r ''last_modified'')
               \<and> (\<forall>c. c \<noteq> ''value'' \<and> c \<noteq> ''time'' \<and> c \<noteq> ''last_modified'' \<and> c \<noteq> ''qualifier''
                      \<longrightarrow> cell_of (g r) c = cell_of r c))"
    by blast
  have m4: "rows_match df4"
    using rows_match_dropna [OF 4] rows_match_map_column [OF 3] rows_match_map_column [OF 2]
      rows_match_map_column [OF 1] assms(2) by blast
  show "rows_match df"
  proof (cases "''qualifier'' \<in> set (columns df4)")
    case True
    with 5 have "drop_column ''qualifier'' df4 = Inr df" by simp
    from rows_match_drop_column [OF this m4] show ?thesis .
  next
    case False
    with 5 m4 show ?thesis by simp
  qed
  show "set (columns df) = set (columns J) - {''qualifier''}"
  proof (cases "''qualifier'' \<in> set (columns df4)")
    case True
    with 5 have "drop_column ''qualifier'' df4 = Inr df" by simp
    from drop_column_Inr(1) [OF this] show ?thesis by (auto simp: cols4)
  next
    case False
    with 5 cols4 show ?thesis by auto
  qed
qed

lemma merge_row_keys:
  assumes "r' \<in> set (merge_row lname rname rcols a b rrows l)"
    and "\<forall>m \<in> set rrows. map fst m = rcols"
  shows "map fst r' = map lname (map fst l) @ map rname rcols"
proof (cases "filter (\<lambda>r. cell_of r b = cell_of l a) rrows = []")
  case True
  from merge_row_unmatched [OF assms(1) True] show ?thesis
    by (simp add: map_fst_rename_keys comp_def)
next
  case False
  from merge_row_matched [OF assms(1) False] obtain m where "m \<in> set rrows"
    and "r' = rename_keys lname l @ rename_keys rname m"
    by blast
  with assms(2) show ?thesis by (simp add: map_fst_rename_keys)
qed

lemma rows_match_merge:
  assumes "merge_left L R a b = Inr M" and "rows_match L" and "rows_match R"
  shows "rows_match M"
proof (rule rows_matchI)
  fix r' assume "r' \<in> set (rows M)"
  then obtain l where l: "l \<in> set (rows L)"
    and r': "r' \<in> set (merge_row (suffixed (filter (\<lambda>c. c \<in> set (columns R)) (columns L)) ''_x'')
        (suffixed (filter (\<lambda>c. c \<in> set (columns R)) (columns L)) ''_y'') (columns R) a b (rows R) l)"
    by (auto simp: merge_left_Inr(2) [OF assms(1)])
  have "\<forall>m \<in> set (rows R). map fst m = columns R"
    using rows_matchD [OF assms(3)] by blast
  from merge_row_keys [OF r' this] show "map fst r' = columns M"
    by (simp add: merge_left_Inr(1) [OF assms(1)] rows_matchD [OF assms(2) l])
qed

lemma suffix_x_not_id: "c @ ''_x'' \<noteq> ''id''"
  using append_eq_append_conv [of "''_x''" "''id''" c "[]"] by simp

lemma suffix_x_eq_id_x: "c @ ''_x'' = ''id_x'' \<longleftrightarrow> c = ''id''"
  using append_eq_append_conv [of "''_x''" "''_x''" c "''id''"] by simp

lemma join_lookup_Inr:
  assumes jl: "join_lookup df L code name = Inr df'" and m: "rows_match df"
    and nm: "name = ''parameter_name'' \<or> name = ''statistic_description''"
  shows "''id'' \<notin> set (columns df)"
    and "\<exists>G. rows df' = concat (map G (rows df))
           \<and> (\<forall>l \<in> set (rows df).
                 length (G l) = max 1 (length (lookup_matches name L (cell_of l code)))
               \<and> (\<forall>r' \<in> set (G l). \<forall>c \<in> set (columns df). c \<noteq> name \<longrightarrow> cell_of r' c = cell_of l c))"
    and "rows_match df'"
    and "''id'' \<notin> set (columns df')"
    and "\<forall>c \<in> set (columns df). c \<noteq> name \<longrightarrow> c \<in> set (columns df')"
    and "\<forall>c \<in> set (columns df'). c \<in> set (columns df) \<or> c = name \<or> c = name @ ''_x'' \<or> c = name @ ''_y''"
    and "\<exists>sel. select_columns [''id'', name] L = Inr sel"
    and "code \<in> set (columns df)"
proof -
  from jl obtain sel merged where sel: "select_columns [''id'', name] L = Inr sel"
    and mg: "merge_left df (drop_duplicates sel) code ''id'' = Inr merged"
    and dr: "drop_column ''id'' merged = Inr df'"
    by (auto simp: join_lookup_def split: sum.splits)
  define R where "R = drop_duplicates sel"
  have colsR: "columns R = [''id'', name]"
    by (simp add: R_def drop_duplicates_def select_columns_Inr(1) [OF sel])
  have rowsR: "rows R = lookup_pairs name L"
    by (simp add: R_def drop_duplicates_def select_columns_Inr(2) [OF sel] lookup_pairs_def)
  have mR: "rows_match R"
    unfolding R_def by (rule rows_match_drop_duplicates [OF rows_match_select [OF sel]])
  define ov where "ov = filter (\<lambda>c. c \<in> set (columns R)) (columns df)"
  define lname where "lname = suffixed ov ''_x''"
  define rname where "rname = suffixed ov ''_y''"
  note M = merge_left_Inr [OF mg, folded R_def, folded ov_def, folded lname_def rname_def]
  have colsM: "columns merged = map lname (columns df) @ [rname ''id'', rname name]"
    using M(1) by (simp add: colsR)
  have id_in_M: "''id'' \<in> set (columns merged)" by (rule drop_column_Inr(3) [OF dr])
  have ov_sub: "set ov \<subseteq> {''id'', name}" by (auto simp: ov_def colsR)
  show no_id: "''id'' \<notin> set (columns df)"
  proof
    assume a: "''id'' \<in> set (columns df)"
    then have idov: "''id'' \<in> set ov" by (simp add: ov_def colsR)
    have "lname c \<noteq> ''id''" for c
      using idov by (auto simp: lname_def suffixed_def suffix_x_not_id)
    moreover have "rname ''id'' \<noteq> ''id''" using idov by (simp add: rname_def suffixed_def)
    moreover have "rname name \<noteq> ''id''" using nm by (auto simp: rname_def suffixed_def)
    moreover from id_in_M have "(\<exists>c. lname c = ''id'') \<or> rname ''id'' = ''id'' \<or> rname name = ''id''"
      unfolding colsM by auto
    ultimately show False by blast
  qed
  then have ov_name: "set ov \<subseteq> {name}"
    using ov_sub by (auto simp: ov_def)
  have lname_id: "lname c = c" if "c \<noteq> name" for c
    using ov_name that by (auto simp: lname_def suffixed_def)
  show "code \<in> set (columns df)" by (rule M(3))
  show "\<exists>sel. select_columns [''id'', name] L = Inr sel" using sel by blast
  show "''id'' \<notin> set (columns df')"
    by (simp add: drop_column_Inr(1) [OF dr])
  show "\<forall>c \<in> set (columns df). c \<noteq> name \<longrightarrow> c \<in> set (columns df')"
  proof (intro ballI impI)
    fix c assume c: "c \<in> set (columns df)" and cn: "c \<noteq> name"
    have "lname c = c" by (rule lname_id [OF cn])
    with c have "c \<in> set (columns merged)" by (force simp: colsM)
    moreover have "c \<noteq> ''id''" using c no_id by auto
    ultimately show "c \<in> set (columns df')" by (simp add: drop_column_Inr(1) [OF dr])
  qed
  show "\<forall>c \<in> set (columns df'). c \<in> set (columns df) \<or> c = name \<or> c = name @ ''_x'' \<or> c = name @ ''_y''"
  proof
    fix c assume "c \<in> set (columns df')"
    then have cm: "c \<in> set (columns merged)" and cid: "c \<noteq> ''id''"
      by (simp_all add: drop_column_Inr(1) [OF dr])
    have "''id'' \<notin> set ov" using ov_name nm by auto
    then have rid: "rname ''id'' = ''id''" by (simp add: rname_def suffixed_def)
    have rnm: "rname name = name \<or> rname name = name @ ''_y''"
      by (simp add: rname_def suffixed_def)
    have ln: "lname c0 = c0 \<or> (c0 = name \<and> lname c0 = name @ ''_x'')" for c0
      using ov_name by (auto simp: lname_def suffixed_def)
    from cm consider c0 where "c0 \<in> set (columns df)" and "c = lname c0"
      | "c = rname ''id''" | "c = rname name"
      unfolding colsM by auto
    then show "c \<in> set (columns df) \<or> c = name \<or> c = name @ ''_x'' \<or> c = name @ ''_y''"
    proof cases
      case 1
      with ln [of c0] show ?thesis by auto
    next
      case 2
      with rid cid show ?thesis by simp
    next
      case 3
      with rnm show ?thesis by auto
    qed
  qed
  show "rows_match df'"
    using rows_match_drop_column [OF dr] rows_match_merge [OF mg m] mR [unfolded R_def] by blast
  define G where "G = (\<lambda>l. map (AList.delete ''id'') (merge_row lname rname (columns R) code ''id'' (rows R) l))"
  have rows: "rows df' = concat (map G (rows df))"
    by (simp add: drop_column_Inr(2) [OF dr] M(2) map_concat G_def comp_def)
  have Gl: "length (G l) = max 1 (length (lookup_matches name L (cell_of l code)))
      \<and> (\<forall>r' \<in> set (G l). \<forall>c \<in> set (columns df). c \<noteq> name \<longrightarrow> cell_of r' c = cell_of l c)"
    if l: "l \<in> set (rows df)" for l
  proof -
    have k: "fst ` set l = set (columns df)" by (rule rows_match_keys [OF m l])
    have inj: "inj_on lname (fst ` set l)" using M(5) by (simp add: k)
    have len: "length (G l) = max 1 (length (lookup_matches name L (cell_of l code)))"
      by (simp add: G_def merge_row_length rowsR lookup_matches_def)
    have cell: "cell_of r' c = cell_of l c"
      if r': "r' \<in> set (G l)" and c: "c \<in> set (columns df)" and cn: "c \<noteq> name" for r' c
    proof -
      from r' obtain r0 where r0: "r0 \<in> set (merge_row lname rname (columns R) code ''id'' (rows R) l)"
        and e: "r' = AList.delete ''id'' r0"
        by (auto simp: G_def)
      have "c \<noteq> ''id''" using c no_id by auto
      then have "cell_of r' c = cell_of r0 c" by (simp add: e cell_of_delete)
      also have "\<dots> = cell_of r0 (lname c)" by (simp add: lname_id [OF cn])
      also have "\<dots> = cell_of l c"
        by (rule merge_row_cell_left [OF r0 inj]) (simp add: k c)
      finally show ?thesis .
    qed
    from len cell show ?thesis by blast
  qed
  from rows Gl show "\<exists>G. rows df' = concat (map G (rows df))
           \<and> (\<forall>l \<in> set (rows df).
                 length (G l) = max 1 (length (lookup_matches name L (cell_of l code)))
               \<and> (\<forall>r' \<in> set (G l). \<forall>c \<in> set (columns df). c \<noteq> name \<longrightarrow> cell_of r' c = cell_of l c))"
    by blast
qed

lemma concat_map_concat:
  "concat (map f (concat xss)) = concat (map (\<lambda>xs. concat (map f xs)) xss)"
  by (induction xss) auto

lemma length_concat_const:
  "(\<And>x. x \<in> set xs \<Longrightarrow> length (f x) = n) \<Longrightarrow> length (concat (map f xs)) = length xs * n"
  by (induction xs) auto

lemma kept_rows_subset: "r \<in> set (kept_rows pd J) \<Longrightarrow> r \<in> set (rows J)"
  by (simp add: kept_rows_def)

lemma cell_of_rename_id_x:
  assumes "''id'' \<notin> fst ` set r" and "k \<in> fst ` set r"
  shows "cell_of (map (\<lambda>(k, v). (if k = ''id_x'' then ''id'' else k, v)) r)
           (if k = ''id_x'' then ''id'' else k) = cell_of r k"
proof -
  have "inj_on (\<lambda>k. if k = ''id_x'' then ''id'' else k) (fst ` set r)"
    using assms(1) by (force simp: inj_on_def split: if_splits)
  from map_of_rename_keys [OF this assms(2)] show ?thesis
    by (simp add: cell_of_def rename_keys_def)
qed

lemma clean_Inr:
  assumes cl: "clean_and_transform_data pd J P S = Inr out" and mJ: "rows_match J"
  shows "columns out = final_cols"
    and "''id_x'' \<in> set (columns J)"
    and "\<exists>F. rows out = concat (map F (kept_rows pd J))
           \<and> (\<forall>r \<in> set (kept_rows pd J).
                 length (F r) =
                   max 1 (length (lookup_matches ''parameter_name'' P (cell_of r ''parameter_code'')))
                   * max 1 (length (lookup_matches ''statistic_description'' S (cell_of r ''statistic_id'')))
               \<and> (\<forall>r' \<in> set (F r). cleaned_from pd r r'))"
    and "\<exists>sel. select_columns [''id'', ''parameter_name''] P = Inr sel"
proof -
  from cl obtain df df' df'' where
    pd: "parse_and_drop pd J = Inr df"
    and j1: "join_lookup df P ''parameter_code'' ''parameter_name'' = Inr df'"
    and j2: "join_lookup df' S ''statistic_id'' ''statistic_description'' = Inr df''"
    and fin: "select_columns final_cols (rename_column ''id_x'' ''id'' df'') = Inr out"
    by (auto simp: clean_and_transform_data_def split: sum.splits)
  note A = parse_and_drop_Inr [OF pd mJ]
  note B = join_lookup_Inr [OF j1 A(2)]
  have mdf': "rows_match df'" by (rule B(3)) simp
  note C = join_lookup_Inr [OF j2 mdf']
  have mdf'': "rows_match df''" by (rule C(3)) simp
  note D = select_columns_Inr [OF fin]
  show "columns out = final_cols" by (rule D(1))
  show "\<exists>sel. select_columns [''id'', ''parameter_name''] P = Inr sel" by (rule B(7)) simp
  let ?ren = "\<lambda>k. if k = ''id_x'' then ''id'' else k"
  have cols_ren: "set final_cols \<subseteq> ?ren ` set (columns df'')"
    using D(3) by (simp add: rename_column_def)
  have no_id'': "''id'' \<notin> set (columns df'')" by (rule C(4)) simp
  have back2: "c \<in> set (columns df')"
    if "c \<in> set (columns df'')" and "c \<noteq> ''statistic_description''"
      and "c \<noteq> ''statistic_description_x''" and "c \<noteq> ''statistic_description_y''" for c
    using C(6) that by auto
  have back1: "c \<in> set (columns df)"
    if "c \<in> set (columns df')" and "c \<noteq> ''parameter_name''"
      and "c \<noteq> ''parameter_name_x''" and "c \<noteq> ''parameter_name_y''" for c
    using B(6) that by auto
  have fwd1: "c \<in> set (columns df')" if "c \<in> set (columns df)" "c \<noteq> ''parameter_name''" for c
    using B(5) that by auto
  have idx'': "''id_x'' \<in> set (columns df'')"
  proof -
    have "''id'' \<in> set final_cols" by (simp add: final_cols_def)
    with cols_ren obtain k where "k \<in> set (columns df'')" and "''id'' = ?ren k" by blast
    with no_id'' show ?thesis by (auto split: if_splits)
  qed
  have idx: "''id_x'' \<in> set (columns df)"
    by (rule back1 [OF back2 [OF idx'']]) simp_all
  then show "''id_x'' \<in> set (columns J)" using A(3) by auto
  have tracked: "c \<in> set (columns df)"
    if "c \<in> {''value'', ''time'', ''last_modified'', ''monitoring_location_id'',
              ''parameter_code'', ''statistic_id'', ''monitoring_location_name'', ''site_type'',
              ''unit_of_measure'', ''approval_status'', ''agency_name'', ''state_name'',
              ''county_name''}" for c
  proof -
    from that have "c \<in> set final_cols" by (auto simp: final_cols_def)
    with cols_ren obtain k where k: "k \<in> set (columns df'')" and e: "c = ?ren k" by blast
    from that e have "k = c" by (auto split: if_splits)
    with k have "c \<in> set (columns df'')" by simp
    then have "c \<in> set (columns df')" using that by (intro back2) auto
    then show ?thesis using that by (intro back1) auto
  qed
  from A(1) obtain g where g: "rows df = map g (kept_rows pd J)"
    and gc0: "\<forall>r \<in> set (rows J).
                 cell_of (g r) ''value'' = parse_value pd (cell_of r ''value'')
               \<and> cell_of (g r) ''time'' = parse_time pd (cell_of r ''time'')
               \<and> cell_of (g r) ''last_modified'' = parse_last_modified pd (cell_of r ''last_modified'')
               \<and> (\<forall>c. c \<noteq> ''value'' \<and> c \<noteq> ''time'' \<and> c \<noteq> ''last_modified'' \<and> c \<noteq> ''qualifier''
                      \<longrightarrow> cell_of (g r) c = cell_of r c)"
    by (elim exE conjE)
  have gc: "cell_of (g r) ''value'' = parse_value pd (cell_of r ''value'')"
      "cell_of (g r) ''time'' = parse_time pd (cell_of r ''time'')"
      "cell_of (g r) ''last_modified'' = parse_last_modified pd (cell_of r ''last_modified'')"
      "\<And>c. c \<noteq> ''value'' \<Longrightarrow> c \<noteq> ''time'' \<Longrightarrow> c \<noteq> ''last_modified'' \<Longrightarrow> c \<noteq> ''qualifier''
            \<Longrightarrow> cell_of (g r) c = cell_of r c"
    if "r \<in> set (rows J)" for r
    using bspec [OF gc0 that] by simp_all
  have B2: "\<exists>G. rows df' = concat (map G (rows df))
           \<and> (\<forall>l \<in> set (rows df).
                 length (G l) = max 1 (length (lookup_matches ''parameter_name'' P (cell_of l ''parameter_code'')))
               \<and> (\<forall>r' \<in> set (G l). \<forall>c \<in> set (columns df). c \<noteq> ''parameter_name'' \<longrightarrow> cell_of r' c = cell_of l c))"
    by (rule B(2)) simp
  then obtain G1 where G1: "rows df' = concat (map G1 (rows df))"
    and G1p0: "\<forall>l \<in> set (rows df).
                 length (G1 l) = max 1 (length (lookup_matches ''parameter_name'' P (cell_of l ''parameter_code'')))
               \<and> (\<forall>r' \<in> set (G1 l). \<forall>c \<in> set (columns df). c \<noteq> ''parameter_name'' \<longrightarrow> cell_of r' c = cell_of l c)"
    by (elim exE conjE)
  have G1p: "length (G1 l) = max 1 (length (lookup_matches ''parameter_name'' P (cell_of l ''parameter_code'')))"
      "\<And>r' c. r' \<in> set (G1 l) \<Longrightarrow> c \<in> set (columns df) \<Longrightarrow> c \<noteq> ''parameter_name'' \<Longrightarrow> cell_of r' c = cell_of l c"
    if "l \<in> set (rows df)" for l
    using bspec [OF G1p0 that] by simp_all
  have C2: "\<exists>G. rows df'' = concat (map G (rows df'))
           \<and> (\<forall>l \<in> set (rows df').
                 length (G l) = max 1 (length (lookup_matches ''statistic_description'' S (cell_of l ''statistic_id'')))
               \<and> (\<forall>r' \<in> set (G l). \<forall>c \<in> set (columns df'). c \<noteq> ''statistic_description'' \<longrightarrow> cell_of r' c = cell_of l c))"
    by (rule C(2)) simp
  then obtain G2 where G2: "rows df'' = concat (map G2 (rows df'))"
    and G2p0: "\<forall>l \<in> set (rows df').
                 length (G2 l) = max 1 (length (lookup_matches ''statistic_description'' S (cell_of l ''statistic_id'')))
               \<and> (\<forall>r' \<in> set (G2 l). \<forall>c \<in> set (columns df'). c \<noteq> ''statistic_description'' \<longrightarrow> cell_of r' c = cell_of l c)"
    by (elim exE conjE)
  have G2p: "length (G2 l) = max 1 (length (lookup_matches ''statistic_description'' S (cell_of l ''statistic_id'')))"
      "\<And>r' c. r' \<in> set (G2 l) \<Longrightarrow> c \<in> set (columns df') \<Longrightarrow> c \<noteq> ''statistic_description'' \<Longrightarrow> cell_of r' c = cell_of l c"
    if "l \<in> set (rows df')" for l
    using bspec [OF G2p0 that] by simp_all
  define fin_row where "fin_row = (\<lambda>r. map (\<lambda>c. (c, cell_of (map (\<lambda>(k, v). (?ren k, v)) r) c)) final_cols)"
  define F where "F = (\<lambda>r. map fin_row (concat (map G2 (G1 (g r)))))"
  have rows'': "rows df'' = concat (map (\<lambda>r. concat (map G2 (G1 (g r)))) (kept_rows pd J))"
    by (simp add: G2 G1 g concat_map_concat comp_def)
  have "rows out = map fin_row (rows df'')"
    by (simp add: D(2) rename_column_def fin_row_def)
  then have rows_out: "rows out = concat (map F (kept_rows pd J))"
    by (simp add: rows'' map_concat F_def comp_def)
  have Fr: "length (F r) =
                   max 1 (length (lookup_matches ''parameter_name'' P (cell_of r ''parameter_code'')))
                   * max 1 (length (lookup_matches ''statistic_description'' S (cell_of r ''statistic_id'')))
               \<and> (\<forall>r' \<in> set (F r). cleaned_from pd r r')"
    if r: "r \<in> set (kept_rows pd J)" for r
  proof -
    have rJ: "r \<in> set (rows J)" by (rule kept_rows_subset [OF r])
    have gdf: "g r \<in> set (rows df)" using r by (simp add: g)
    note gr = gc [OF rJ]
    have in1: "r1 \<in> set (rows df')" if "r1 \<in> set (G1 (g r))" for r1
      using that gdf by (auto simp: G1)
    have c1: "cell_of r1 c = cell_of (g r) c"
      if "r1 \<in> set (G1 (g r))" and "c \<in> set (columns df)" and "c \<noteq> ''parameter_name''" for r1 c
      using G1p(2) [OF gdf] that by blast
    have c2: "cell_of r2 c = cell_of r1 c"
      if "r1 \<in> set (G1 (g r))" and "r2 \<in> set (G2 r1)" and "c \<in> set (columns df)"
        and "c \<noteq> ''parameter_name''" and "c \<noteq> ''statistic_description''" for r1 r2 c
      using G2p(2) [OF in1 [OF that(1)] that(2) fwd1 [OF that(3,4)] that(5)] .
    have len2: "length (G2 r1) = max 1 (length (lookup_matches ''statistic_description'' S (cell_of r ''statistic_id'')))"
      if r1: "r1 \<in> set (G1 (g r))" for r1
    proof -
      have "cell_of r1 ''statistic_id'' = cell_of (g r) ''statistic_id''"
        by (rule c1 [OF r1 tracked]) simp_all
      also have "\<dots> = cell_of r ''statistic_id''" by (rule gr(4)) simp_all
      finally show ?thesis using G2p(1) [OF in1 [OF r1]] by simp
    qed
    have len: "length (F r) =
                   max 1 (length (lookup_matches ''parameter_name'' P (cell_of r ''parameter_code'')))
                   * max 1 (length (lookup_matches ''statistic_description'' S (cell_of r ''statistic_id'')))"
    proof -
      have "cell_of (g r) ''parameter_code'' = cell_of r ''parameter_code''" by (rule gr(4)) simp_all
      then have "length (G1 (g r)) = max 1 (length (lookup_matches ''parameter_name'' P (cell_of r ''parameter_code'')))"
        using G1p(1) [OF gdf] by simp
      then show ?thesis
        using length_concat_const [of "G1 (g r)" G2, OF len2] by (simp add: F_def)
    qed
    have prov: "cleaned_from pd r r'" if "r' \<in> set (F r)" for r'
    proof -
      from that obtain r1 r2 where r1: "r1 \<in> set (G1 (g r))" and r2: "r2 \<in> set (G2 r1)"
        and r': "r' = fin_row r2"
        by (auto simp: F_def)
      have r2in: "r2 \<in> set (rows df'')" using in1 [OF r1] r2 by (auto simp: G2)
      have k2: "fst ` set r2 = set (columns df'')" by (rule rows_match_keys [OF mdf'' r2in])
      have noid: "''id'' \<notin> fst ` set r2" using no_id'' by (simp add: k2)
      have through: "cell_of r2 c = cell_of (g r) c"
        if "c \<in> set (columns df)" and "c \<noteq> ''parameter_name''" and "c \<noteq> ''statistic_description''" for c
        using c2 [OF r1 r2 that] c1 [OF r1 that(1,2)] by simp
      have fin_cell: "cell_of r' (?ren k) = cell_of r2 k"
        if "k \<in> set (columns df'')" and "?ren k \<in> set final_cols" for k
      proof -
        have "cell_of r' (?ren k) = cell_of (map (\<lambda>(k, v). (?ren k, v)) r2) (?ren k)"
          unfolding r' fin_row_def by (rule cell_of_select [OF that(2)])
        also have "\<dots> = cell_of r2 k"
          by (rule cell_of_rename_id_x [OF noid]) (simp add: k2 that(1))
        finally show ?thesis .
      qed
      have in'': "c \<in> set (columns df'')"
        if "c \<in> set (columns df)" and "c \<noteq> ''parameter_name''" and "c \<noteq> ''statistic_description''" for c
        using C(5) fwd1 [OF that(1,2)] that(3) by auto
      have plain: "cell_of r' c = cell_of (g r) c"
        if "c \<in> {''value'', ''time'', ''last_modified'', ''monitoring_location_id'',
                  ''parameter_code'', ''statistic_id'', ''monitoring_location_name'', ''site_type'',
                  ''unit_of_measure'', ''approval_status'', ''agency_name'', ''state_name'',
                  ''county_name''}" for c
      proof -
        have cd: "c \<in> set (columns df)" by (rule tracked [OF that])
        have ne: "c \<noteq> ''parameter_name''" "c \<noteq> ''statistic_description''" "c \<noteq> ''id_x''"
          using that by auto
        have "c \<in> set final_cols" using that by (auto simp: final_cols_def)
        with fin_cell [OF in'' [OF cd ne(1,2)]] ne(3) have "cell_of r' c = cell_of r2 c" by simp
        then show ?thesis using through [OF cd ne(1,2)] by simp
      qed
      have idc: "cell_of r' ''id'' = cell_of (g r) ''id_x''"
      proof -
        have "''id'' \<in> set final_cols" by (simp add: final_cols_def)
        with fin_cell [OF idx''] have "cell_of r' ''id'' = cell_of r2 ''id_x''" by simp
        then show ?thesis using through [OF idx] by simp
      qed
      have g1: "cell_of (g r) ''id_x'' = cell_of r ''id_x''"
        "cell_of (g r) ''monitoring_location_id'' = cell_of r ''monitoring_location_id''"
        "cell_of (g r) ''parameter_code'' = cell_of r ''parameter_code''"
        "cell_of (g r) ''statistic_id'' = cell_of r ''statistic_id''"
        "cell_of (g r) ''monitoring_location_name'' = cell_of r ''monitoring_location_name''"
        "cell_of (g r) ''site_type'' = cell_of r ''site_type''"
        "cell_of (g r) ''unit_of_measure'' = cell_of r ''unit_of_measure''"
        "cell_of (g r) ''approval_status'' = cell_of r ''approval_status''"
        "cell_of (g r) ''agency_name'' = cell_of r ''agency_name''"
        "cell_of (g r) ''state_name'' = cell_of r ''state_name''"
        "cell_of (g r) ''county_name'' = cell_of r ''county_name''"
        by (rule gr(4); simp)+
      show ?thesis
        unfolding cleaned_from_def
        using plain [of "''value''"] plain [of "''time''"] plain [of "''last_modified''"]
          plain [of "''monitoring_location_id''"] plain [of "''parameter_code''"]
          plain [of "''statistic_id''"] plain [of "''monitoring_location_name''"]
          plain [of "''site_type''"] plain [of "''unit_of_measure''"]
          plain [of "''approval_status''"] plain [of "''agency_name''"]
          plain [of "''state_name''"] plain [of "''county_name''"] idc gr(1,2,3) g1
        by simp
    qed
    from len prov show ?thesis by blast
  qed
  from rows_out Fr show "\<exists>F. rows out = concat (map F (kept_rows pd J))
           \<and> (\<forall>r \<in> set (kept_rows pd J).
                 length (F r) =
                   max 1 (length (lookup_matches ''parameter_name'' P (cell_of r ''parameter_code'')))
                   * max 1 (length (lookup_matches ''statistic_description'' S (cell_of r ''statistic_id'')))
               \<and> (\<forall>r' \<in> set (F r). cleaned_from pd r r'))"
    by blast
qed

lemma clean_groups:
  assumes "clean_and_transform_data pd J P S = Inr out" and "rows_match J"
  obtains F where "rows out = concat (map F (kept_rows pd J))"
    and "\<And>r. r \<in> set (kept_rows pd J) \<Longrightarrow>
           length (F r) =
             max 1 (length (lookup_matches ''parameter_name'' P (cell_of r ''parameter_code'')))
             * max 1 (length (lookup_matches ''statistic_description'' S (cell_of r ''statistic_id'')))"
    and "\<And>r r'. r \<in> set (kept_rows pd J) \<Longrightarrow> r' \<in> set (F r) \<Longrightarrow> cleaned_from pd r r'"
proof -
  from clean_Inr(3) [OF assms] obtain F where 1: "rows out = concat (map F (kept_rows pd J))"
    and 2: "\<forall>r \<in> set (kept_rows pd J).
                 length (F r) =
                   max 1 (length (lookup_matches ''parameter_name'' P (cell_of r ''parameter_code'')))
                   * max 1 (length (lookup_matches ''statistic_description'' S (cell_of r ''statistic_id'')))
               \<and> (\<forall>r' \<in> set (F r). cleaned_from pd r r')"
    by (elim exE conjE)
  show ?thesis
  proof (rule that [of F])
    show "rows out = concat (map F (kept_rows pd J))" by (rule 1)
    show "length (F r) =
             max 1 (length (lookup_matches ''parameter_name'' P (cell_of r ''parameter_code'')))
             * max 1 (length (lookup_matches ''statistic_description'' S (cell_of r ''statistic_id'')))"
      if "r \<in> set (kept_rows pd J)" for r
      using bspec [OF 2 that] by simp
    show "cleaned_from pd r r'" if "r \<in> set (kept_rows pd J)" and "r' \<in> set (F r)" for r r'
      using bspec [OF 2 that(1)] that(2) by simp
  qed
qed

lemma parse_value_cases:
  "parse_value pd v \<noteq> CNull \<longleftrightarrow> to_numeric pd v \<noteq> None"
  "parse_value pd v \<noteq> CNull \<Longrightarrow> \<exists>x. parse_value pd v = CNum x"
  by (auto simp: parse_value_def num_cell_def split: option.splits)

lemma parse_time_cases: "(\<exists>t. parse_time pd v = CTime t) \<or> parse_time pd v = CNull"
  by (auto simp: parse_time_def time_cell_def split: option.splits)

text \<open>
  C4 (as amended). After the cleaner has run, the value of every row is a number; every
  row comes from a joined row whose value is numeric, so rows with a non-numeric value
  are removed; and every joined row with a numeric value is retained, whatever its time:
  the time of a cleaned row is a timestamp, or missing when the text was unparseable.
  The cleaned rows are, in order, one non-empty group of rows for each joined row with a
  numeric value (as many rows as the two lookup joins give it), and each row of a group
  carries the typed cells and the other cells of that joined row (\<open>cleaned_from\<close>).
\<close>

theorem clean_keeps_numeric_rows:
  assumes "clean_and_transform_data pd J P S = Inr out" and "rows_match J"
  shows "(\<forall>r' \<in> set (rows out). \<exists>x. cell_of r' ''value'' = CNum x)
       \<and> (\<forall>r' \<in> set (rows out). (\<exists>t. cell_of r' ''time'' = CTime t) \<or> cell_of r' ''time'' = CNull)
       \<and> (\<forall>r' \<in> set (rows out). \<exists>r \<in> set (rows J).
             to_numeric pd (cell_of r ''value'') \<noteq> None \<and> cleaned_from pd r r')
       \<and> (\<forall>r \<in> set (rows J). to_numeric pd (cell_of r ''value'') \<noteq> None \<longrightarrow>
             (\<exists>r' \<in> set (rows out). cleaned_from pd r r'
                \<and> (to_datetime pd (strip (astype_str pd (cell_of r ''time''))) = None
                     \<longrightarrow> cell_of r' ''time'' = CNull)))
       \<and> (\<exists>groups. rows out = concat groups
             \<and> list_all2
                   (\<lambda>r g. g \<noteq> []
                      \<and> length g =
                          max 1 (length (lookup_matches ''parameter_name'' P
                                           (cell_of r ''parameter_code'')))
                          * max 1 (length (lookup_matches ''statistic_description'' S
                                             (cell_of r ''statistic_id'')))
                      \<and> list_all (cleaned_from pd r) g)
                   (kept_rows pd J) groups)"
proof (rule clean_groups [OF assms])
  fix F
  assume rows: "rows out = concat (map F (kept_rows pd J))"
    and len: "\<And>r. r \<in> set (kept_rows pd J) \<Longrightarrow>
           length (F r) =
             max 1 (length (lookup_matches ''parameter_name'' P (cell_of r ''parameter_code'')))
             * max 1 (length (lookup_matches ''statistic_description'' S (cell_of r ''statistic_id'')))"
    and prov: "\<And>r r'. r \<in> set (kept_rows pd J) \<Longrightarrow> r' \<in> set (F r) \<Longrightarrow> cleaned_from pd r r'"
  have kept: "r \<in> set (kept_rows pd J) \<longleftrightarrow> r \<in> set (rows J) \<and> to_numeric pd (cell_of r ''value'') \<noteq> None" for r
    by (auto simp: kept_rows_def parse_value_cases(1))
  have origin: "\<exists>r \<in> set (rows J). to_numeric pd (cell_of r ''value'') \<noteq> None \<and> cleaned_from pd r r'"
    if "r' \<in> set (rows out)" for r'
  proof -
    from that obtain r where r: "r \<in> set (kept_rows pd J)" and "r' \<in> set (F r)"
      by (auto simp: rows)
    with prov [of r r'] kept [of r] show ?thesis by blast
  qed
  have 1: "\<exists>x. cell_of r' ''value'' = CNum x" if "r' \<in> set (rows out)" for r'
  proof -
    from origin [OF that] obtain r where "to_numeric pd (cell_of r ''value'') \<noteq> None"
      and "cleaned_from pd r r'" by blast
    then show ?thesis
      using parse_value_cases [of pd "cell_of r ''value''"] by (auto simp: cleaned_from_def)
  qed
  have 2: "(\<exists>t. cell_of r' ''time'' = CTime t) \<or> cell_of r' ''time'' = CNull"
    if "r' \<in> set (rows out)" for r'
  proof -
    from origin [OF that] obtain r where "cleaned_from pd r r'" by blast
    then have "cell_of r' ''time'' = parse_time pd (cell_of r ''time'')"
      by (simp add: cleaned_from_def)
    then show ?thesis using parse_time_cases [of pd "cell_of r ''time''"] by simp
  qed
  have 4: "\<exists>r' \<in> set (rows out). cleaned_from pd r r'
                \<and> (to_datetime pd (strip (astype_str pd (cell_of r ''time''))) = None
                     \<longrightarrow> cell_of r' ''time'' = CNull)"
    if "r \<in> set (rows J)" and "to_numeric pd (cell_of r ''value'') \<noteq> None" for r
  proof -
    have r: "r \<in> set (kept_rows pd J)" using that kept by blast
    have "length (F r) \<noteq> 0" using len [OF r] by simp
    then obtain r' where r': "r' \<in> set (F r)" by (cases "F r") auto
    then have in_out: "r' \<in> set (rows out)" using r by (auto simp: rows)
    have c: "cleaned_from pd r r'" by (rule prov [OF r r'])
    have imp: "to_datetime pd (strip (astype_str pd (cell_of r ''time''))) = None
            \<longrightarrow> cell_of r' ''time'' = CNull"
      using c by (simp add: cleaned_from_def parse_time_def time_cell_def)
    have cc: "cleaned_from pd r r'
                \<and> (to_datetime pd (strip (astype_str pd (cell_of r ''time''))) = None
                     \<longrightarrow> cell_of r' ''time'' = CNull)"
      by (rule conjI [OF c imp])
    show ?thesis
      by (rule bexI [where x = r' and P = "\<lambda>r'. cleaned_from pd r r'
                \<and> (to_datetime pd (strip (astype_str pd (cell_of r ''time''))) = None
                     \<longrightarrow> cell_of r' ''time'' = CNull)", OF cc in_out])
  qed
  show ?thesis
  proof (intro conjI ballI impI)
    fix r' assume "r' \<in> set (rows out)"
    then show "\<exists>x. cell_of r' ''value'' = CNum x" by (rule 1)
  next
    fix r' assume "r' \<in> set (rows out)"
    then show "(\<exists>t. cell_of r' ''time'' = CTime t) \<or> cell_of r' ''time'' = CNull" by (rule 2)
  next
    fix r' assume "r' \<in> set (rows out)"
    then show "\<exists>r \<in> set (rows J). to_numeric pd (cell_of r ''value'') \<noteq> None \<and> cleaned_from pd r r'"
      by (rule origin)
  next
    fix r assume "r \<in> set (rows J)" and "to_numeric pd (cell_of r ''value'') \<noteq> None"
    then show "\<exists>r' \<in> set (rows out). cleaned_from pd r r'
                \<and> (to_datetime pd (strip (astype_str pd (cell_of r ''time''))) = None
                     \<longrightarrow> cell_of r' ''time'' = CNull)"
      by (rule 4)
  next
    have "F r \<noteq> []
          \<and> length (F r) =
              max 1 (length (lookup_matches ''parameter_name'' P (cell_of r ''parameter_code'')))
              * max 1 (length (lookup_matches ''statistic_description'' S (cell_of r ''statistic_id'')))
          \<and> list_all (cleaned_from pd r) (F r)" if r: "r \<in> set (kept_rows pd J)" for r
    proof -
      have "length (F r) \<noteq> 0" using len [OF r] by simp
      then have "F r \<noteq> []" by simp
      moreover have "list_all (cleaned_from pd r) (F r)"
        using prov [OF r] by (simp add: list_all_iff)
      ultimately show ?thesis using len [OF r] by simp
    qed
    then have "list_all2
                   (\<lambda>r g. g \<noteq> []
                      \<and> length g =
                          max 1 (length (lookup_matches ''parameter_name'' P
                                           (cell_of r ''parameter_code'')))
                          * max 1 (length (lookup_matches ''statistic_description'' S
                                             (cell_of r ''statistic_id'')))
                      \<and> list_all (cleaned_from pd r) g)
        (kept_rows pd J) (map F (kept_rows pd J))"
      by (simp add: list_all2_map2 list_all2_same)
    with rows show "\<exists>groups. rows out = concat groups
             \<and> list_all2
                   (\<lambda>r g. g \<noteq> []
                      \<and> length g =
                          max 1 (length (lookup_matches ''parameter_name'' P
                                           (cell_of r ''parameter_code'')))
                          * max 1 (length (lookup_matches ''statistic_description'' S
                                             (cell_of r ''statistic_id'')))
                      \<and> list_all (cleaned_from pd r) g)
                   (kept_rows pd J) groups"
      by (intro exI [of _ "map F (kept_rows pd J)"] conjI)
  qed
qed

lemma example_joined_join:
  "join_daily_values_with_locations example_dv example_loc = Inr example_joined"
  by (simp add: join_daily_values_with_locations_def select_columns_def merge_left_def
      example_dv_def example_loc_def example_joined_def mk_table_def loc_keep_def Let_def
      suffixed_def merge_row_def cell_of_def rename_keys_def)

lemma example_cleaned_clean:
  "clean_and_transform_data example_pandas example_joined example_param example_stat
     = Inr example_cleaned"
  by code_simp

lemma rows_match_example_joined: "rows_match example_joined"
  by code_simp

theorem clean_keeps_numeric_rows_witness:
  "rows_match example_joined
   \<and> clean_and_transform_data example_pandas example_joined example_param example_stat
       = Inr example_cleaned
   \<and> list_all (\<lambda>r. cell_of r ''value'' = CNum (Finite (7 / 2)) \<or> cell_of r ''value'' = CNum (Finite 1))
       (rows example_cleaned)"
proof -
  have "\<forall>r' \<in> set (rows example_cleaned). \<exists>x. cell_of r' ''value'' = CNum x"
    by (rule clean_keeps_numeric_rows [OF example_cleaned_clean rows_match_example_joined, THEN conjunct1])
  moreover have "list_all (\<lambda>r. cell_of r ''value'' = CNum (Finite (7 / 2)) \<or> cell_of r ''value'' = CNum (Finite 1))
       (rows example_cleaned)"
    by code_simp
  ultimately show ?thesis
    using example_cleaned_clean rows_match_example_joined by simp
qed

text \<open>
  C4 as stated also promises a valid time in every surviving row. Only a missing value
  drops a row: the joined row \<open>dv-3\<close> has the value \<open>1.0\<close> and the unparseable time
  \<open>garbage\<close>, and it survives with a missing time; the row \<open>dv-2\<close> with the value
  \<open>not_a_number\<close> is removed and the row \<open>dv-1\<close> with \<open>3.5\<close> is retained as 3.5.
\<close>

theorem clean_keeps_unparseable_time_counterexample:
  "map_sum id (\<lambda>t. map (\<lambda>r. (cell_of r ''id'', cell_of r ''value'', cell_of r ''time'')) (rows t))
     (clean_and_transform_data example_pandas example_joined example_param example_stat)
   = Inr [(CStr ''dv-1'', CNum (Finite (7 / 2)), CTime 1704067200), (CStr ''dv-3'', CNum (Finite 1), CNull)]"
  by code_simp

lemma clean_select_ok:
  assumes "clean_and_transform_data pd J P S = Inr out"
  shows "\<exists>sel. select_columns [''id'', ''parameter_name''] P = Inr sel" and "columns out = final_cols"
proof -
  from assms obtain df df' df'' where
    j1: "join_lookup df P ''parameter_code'' ''parameter_name'' = Inr df'"
    and fin: "select_columns final_cols (rename_column ''id_x'' ''id'' df'') = Inr out"
    by (auto simp: clean_and_transform_data_def split: sum.splits)
  from j1 show "\<exists>sel. select_columns [''id'', ''parameter_name''] P = Inr sel"
    by (auto simp: join_lookup_def split: sum.splits)
  show "columns out = final_cols" by (rule select_columns_Inr(1) [OF fin])
qed

lemma parse_and_drop_final:
  assumes "columns t = final_cols"
  shows "\<exists>df. parse_and_drop pd t = Inr df \<and> columns df = final_cols"
  using assms
  by (simp add: parse_and_drop_def map_column_def dropna_def final_cols_def)

lemma join_lookup_final:
  assumes "columns df = final_cols" and "select_columns [''id'', ''parameter_name''] P = Inr sel"
  shows "join_lookup df P ''parameter_code'' ''parameter_name'' = Inl (KeyError ''id'')"
proof -
  have c: "columns (drop_duplicates sel) = [''id'', ''parameter_name'']"
    by (simp add: drop_duplicates_def select_columns_Inr(1) [OF assms(2)])
  have "\<exists>merged. merge_left df (drop_duplicates sel) ''parameter_code'' ''id'' = Inr merged
          \<and> ''id'' \<notin> set (columns merged)"
    by (simp add: merge_left_def c assms(1) final_cols_def Let_def suffixed_def)
  then obtain merged where "merge_left df (drop_duplicates sel) ''parameter_code'' ''id'' = Inr merged"
    and "''id'' \<notin> set (columns merged)"
    by (elim exE conjE)
  then show ?thesis
    by (simp add: join_lookup_def assms(2) drop_column_def)
qed

text \<open>
  C5 (as amended). The cleaner is not idempotent: whenever it succeeds, running it again
  on its own output raises KeyError. The output already has the columns \<open>id\<close> and
  \<open>parameter_name\<close>, so the merge with the parameter table renames the colliding
  columns to \<open>id_x\<close>, \<open>id_y\<close>, \<open>parameter_name_x\<close> and \<open>parameter_name_y\<close>, and the
  following drop of the column \<open>id\<close> finds no such column.
\<close>

theorem clean_twice_raises:
  assumes "clean_and_transform_data pd J P S = Inr out"
  shows "clean_and_transform_data pd out P S = Inl (KeyError ''id'')"
proof -
  from clean_select_ok [OF assms] obtain sel
    where sel: "select_columns [''id'', ''parameter_name''] P = Inr sel"
      and cols: "columns out = final_cols"
    by (elim exE)
  from parse_and_drop_final [OF cols, of pd] obtain df where "parse_and_drop pd out = Inr df"
    and "columns df = final_cols"
    by (elim exE conjE)
  then show ?thesis
    by (simp add: clean_and_transform_data_def join_lookup_final [OF _ sel])
qed

theorem clean_twice_raises_witness:
  "clean_and_transform_data example_pandas example_joined example_param example_stat
     = Inr example_cleaned
   \<and> clean_and_transform_data example_pandas example_cleaned example_param example_stat
     = Inl (KeyError ''id'')"
  using clean_twice_raises [OF example_cleaned_clean] example_cleaned_clean by simp

text \<open>
  C5 as stated fails on the example: the first run succeeds with two rows, the second run
  on that output does not return a table.
\<close>

theorem clean_not_idempotent_counterexample:
  "map_sum id (\<lambda>t. length (rows t))
     (clean_and_transform_data example_pandas example_joined example_param example_stat) = Inr 2
   \<and> map_sum id (\<lambda>t. length (rows t))
     (clean_and_transform_data example_pandas example_cleaned example_param example_stat)
     = Inl (KeyError ''id'')"
  by code_simp






section \<open>The identifier columns through the join and the cleaner\<close>

lemma rows_match_join:
  assumes "join_daily_values_with_locations dv_df loc_df = Inr joined" and "rows_match dv_df"
  shows "rows_match joined"
proof -
  from assms(1) obtain sel where sel: "select_columns loc_keep loc_df = Inr sel"
    and m: "merge_left dv_df sel ''monitoring_location_id'' ''id'' = Inr joined"
    by (auto simp: join_daily_values_with_locations_def split: sum.splits)
  show ?thesis by (rule rows_match_merge [OF m assms(2) rows_match_select [OF sel]])
qed

lemma join_cell_of_dv:
  assumes j: "join_daily_values_with_locations dv_df loc_df = Inr joined" and m: "rows_match dv_df"
    and c: "c \<in> set (columns dv_df)" and r': "r' \<in> set (rows joined)"
  shows "\<exists>l \<in> set (rows dv_df). cell_of r' (dv_name dv_df c) = cell_of l c"
proof -
  from r' obtain l where l: "l \<in> set (rows dv_df)"
    and in_mr: "r' \<in> set (merge_row (dv_name dv_df) (loc_name dv_df) loc_keep
                           ''monitoring_location_id'' ''id''
                           (map (\<lambda>r. map (\<lambda>c. (c, cell_of r c)) loc_keep) (rows loc_df)) l)"
    unfolding join_Inr(2) [OF j] by auto
  have k: "fst ` set l = set (columns dv_df)" by (rule rows_match_keys [OF m l])
  have inj: "inj_on (dv_name dv_df) (fst ` set l)" unfolding k by (rule join_Inr(5) [OF j])
  have ck: "c \<in> fst ` set l" unfolding k by (rule c)
  have "cell_of r' (dv_name dv_df c) = cell_of l c"
    by (rule merge_row_cell_left [OF in_mr inj ck])
  with l show ?thesis by (rule rev_bexI)
qed

lemma suffix_y_not_id: "c @ ''_y'' \<noteq> ''id''"
  using append_eq_append_conv [of "''_y''" "''id''" c "[]"] by simp

lemma join_names_with_id:
  assumes "''id'' \<in> set (columns dv_df)"
  shows "dv_name dv_df ''id'' = ''id_x''" and "loc_name dv_df ''id'' = ''id_y''"
    and "dv_name dv_df c \<noteq> ''id''" and "loc_name dv_df c \<noteq> ''id''"
proof -
  have ov: "''id'' \<in> set (filter (\<lambda>k. k \<in> set loc_keep) (columns dv_df))"
    using assms by (simp add: loc_keep_def)
  show "dv_name dv_df ''id'' = ''id_x''" using ov by (simp add: dv_name_def suffixed_def)
  show "loc_name dv_df ''id'' = ''id_y''" using ov by (simp add: loc_name_def suffixed_def)
  show "dv_name dv_df c \<noteq> ''id''"
  proof (cases "c = ''id''")
    case True
    then show ?thesis using ov by (simp add: dv_name_def suffixed_def)
  next
    case False
    then show ?thesis by (simp add: dv_name_def suffixed_def suffix_x_not_id)
  qed
  show "loc_name dv_df c \<noteq> ''id''"
  proof (cases "c = ''id''")
    case True
    then show ?thesis using ov by (simp add: loc_name_def suffixed_def)
  next
    case False
    then show ?thesis by (simp add: loc_name_def suffixed_def suffix_y_not_id)
  qed
qed

lemma join_names_without_id:
  assumes "''id'' \<notin> set (columns dv_df)"
  shows "loc_name dv_df ''id'' = ''id''"
  using assms by (simp add: loc_name_def suffixed_def)

lemma join_groups_id_x:
  assumes j: "join_daily_values_with_locations dv_df loc_df = Inr joined" and m: "rows_match dv_df"
    and c: "c \<in> set (columns dv_df)"
  shows "\<exists>groups. rows joined = concat groups
           \<and> list_all2 (\<lambda>l g. g \<noteq> [] \<and> list_all (\<lambda>r'. cell_of r' (dv_name dv_df c) = cell_of l c) g)
                (rows dv_df) groups"
proof -
  let ?mr = "merge_row (dv_name dv_df) (loc_name dv_df) loc_keep ''monitoring_location_id'' ''id''
               (map (\<lambda>r. map (\<lambda>c. (c, cell_of r c)) loc_keep) (rows loc_df))"
  have rows: "rows joined = concat (map ?mr (rows dv_df))" by (rule join_Inr(2) [OF j])
  have grp: "?mr l \<noteq> [] \<and> list_all (\<lambda>r'. cell_of r' (dv_name dv_df c) = cell_of l c) (?mr l)"
    if l: "l \<in> set (rows dv_df)" for l
  proof -
    have "length (?mr l) \<noteq> 0" unfolding merge_row_length by simp
    then have ne: "?mr l \<noteq> []" by simp
    have k: "fst ` set l = set (columns dv_df)" by (rule rows_match_keys [OF m l])
    have inj: "inj_on (dv_name dv_df) (fst ` set l)" unfolding k by (rule join_Inr(5) [OF j])
    have ck: "c \<in> fst ` set l" unfolding k by (rule c)
    have "cell_of r' (dv_name dv_df c) = cell_of l c" if "r' \<in> set (?mr l)" for r'
      by (rule merge_row_cell_left [OF that inj ck])
    then have "list_all (\<lambda>r'. cell_of r' (dv_name dv_df c) = cell_of l c) (?mr l)"
      by (simp add: list_all_iff)
    with ne show ?thesis by simp
  qed
  then have "list_all2 (\<lambda>l g. g \<noteq> [] \<and> list_all (\<lambda>r'. cell_of r' (dv_name dv_df c) = cell_of l c) g)
                (rows dv_df) (map ?mr (rows dv_df))"
    by (simp add: list_all2_map2 list_all2_same)
  with rows show ?thesis
    by (intro exI [of _ "map ?mr (rows dv_df)"] conjI)
qed

lemma clean_groups_id:
  assumes cl: "clean_and_transform_data pd J P S = Inr out" and mJ: "rows_match J"
  shows "\<exists>groups. rows out = concat groups
           \<and> list_all2 (\<lambda>r g. g \<noteq> [] \<and> list_all (\<lambda>r'. cell_of r' ''id'' = cell_of r ''id_x'') g)
                (kept_rows pd J) groups"
proof (rule clean_groups [OF assms])
  fix F
  assume rows: "rows out = concat (map F (kept_rows pd J))"
    and len: "\<And>r. r \<in> set (kept_rows pd J) \<Longrightarrow>
           length (F r) =
             max 1 (length (lookup_matches ''parameter_name'' P (cell_of r ''parameter_code'')))
             * max 1 (length (lookup_matches ''statistic_description'' S (cell_of r ''statistic_id'')))"
    and prov: "\<And>r r'. r \<in> set (kept_rows pd J) \<Longrightarrow> r' \<in> set (F r) \<Longrightarrow> cleaned_from pd r r'"
  have "F r \<noteq> [] \<and> list_all (\<lambda>r'. cell_of r' ''id'' = cell_of r ''id_x'') (F r)"
    if r: "r \<in> set (kept_rows pd J)" for r
  proof -
    have "length (F r) \<noteq> 0" using len [OF r] by simp
    then have ne: "F r \<noteq> []" by simp
    have "cell_of r' ''id'' = cell_of r ''id_x''" if "r' \<in> set (F r)" for r'
      using prov [OF r that] unfolding cleaned_from_def by (elim conjE)
    then have "list_all (\<lambda>r'. cell_of r' ''id'' = cell_of r ''id_x'') (F r)"
      by (simp add: list_all_iff)
    with ne show ?thesis by simp
  qed
  then have "list_all2 (\<lambda>r g. g \<noteq> [] \<and> list_all (\<lambda>r'. cell_of r' ''id'' = cell_of r ''id_x'') g)
                (kept_rows pd J) (map F (kept_rows pd J))"
    by (simp add: list_all2_map2 list_all2_same)
  with rows show ?thesis
    by (intro exI [of _ "map F (kept_rows pd J)"] conjI)
qed

text \<open>
  C10. The columns of the joined table are those of the daily values followed by the seven
  selected location columns, the join key \<open>id\<close> and the six descriptive ones, each under
  the name the merge gives it. When the daily values have a column \<open>id\<close> of their own, the
  two are named \<open>id_x\<close> (daily values) and \<open>id_y\<close> (locations), no column is named \<open>id\<close>,
  and every joined row carries under \<open>id_x\<close> the \<open>id\<close> of the daily-values row it comes
  from; otherwise the location column keeps the name \<open>id\<close>. Whenever the cleaner succeeds
  on the joined table, that table has a column \<open>id_x\<close>, the cleaned table has the column
  \<open>id\<close> and no \<open>id_x\<close>, and every cleaned row carries under \<open>id\<close> what its joined row
  carries under \<open>id_x\<close>.
\<close>

theorem join_id_columns:
  assumes "join_daily_values_with_locations dv_df loc_df = Inr joined" and "rows_match dv_df"
  shows "columns joined = map (dv_name dv_df) (columns dv_df) @ map (loc_name dv_df) loc_keep
       \<and> list_all (\<lambda>c. loc_name dv_df c \<in> set (columns joined)) loc_keep
       \<and> (''id'' \<in> set (columns dv_df) \<longrightarrow>
             dv_name dv_df ''id'' = ''id_x'' \<and> loc_name dv_df ''id'' = ''id_y''
           \<and> ''id_x'' \<in> set (columns joined) \<and> ''id_y'' \<in> set (columns joined)
           \<and> ''id'' \<notin> set (columns joined)
           \<and> (\<exists>groups. rows joined = concat groups
                 \<and> list_all2 (\<lambda>l g. g \<noteq> [] \<and> list_all (\<lambda>r'. cell_of r' ''id_x'' = cell_of l ''id'') g)
                      (rows dv_df) groups))
       \<and> (''id'' \<notin> set (columns dv_df) \<longrightarrow>
             loc_name dv_df ''id'' = ''id'' \<and> ''id'' \<in> set (columns joined))
       \<and> (clean_and_transform_data pd joined P S = Inr cleaned \<longrightarrow>
             ''id_x'' \<in> set (columns joined)
           \<and> columns cleaned = final_cols
           \<and> ''id'' \<in> set (columns cleaned) \<and> ''id_x'' \<notin> set (columns cleaned)
           \<and> (\<exists>groups. rows cleaned = concat groups
                 \<and> list_all2 (\<lambda>r g. g \<noteq> [] \<and> list_all (\<lambda>r'. cell_of r' ''id'' = cell_of r ''id_x'') g)
                      (kept_rows pd joined) groups))"
proof -
  note cols = join_Inr(1) [OF assms(1)]
  have idk: "''id'' \<in> set loc_keep" by (simp add: loc_keep_def)
  have 2: "list_all (\<lambda>c. loc_name dv_df c \<in> set (columns joined)) loc_keep"
    unfolding cols list_all_iff by simp
  have loc_id: "loc_name dv_df ''id'' \<in> set (columns joined)"
    unfolding cols using idk by simp
  have 3: "dv_name dv_df ''id'' = ''id_x'' \<and> loc_name dv_df ''id'' = ''id_y''
           \<and> ''id_x'' \<in> set (columns joined) \<and> ''id_y'' \<in> set (columns joined)
           \<and> ''id'' \<notin> set (columns joined)
           \<and> (\<exists>groups. rows joined = concat groups
                 \<and> list_all2 (\<lambda>l g. g \<noteq> [] \<and> list_all (\<lambda>r'. cell_of r' ''id_x'' = cell_of l ''id'') g)
                      (rows dv_df) groups)"
    if id: "''id'' \<in> set (columns dv_df)"
  proof -
    note n = join_names_with_id [OF id]
    have a: "dv_name dv_df ''id'' = ''id_x''" by (rule n(1))
    have b: "loc_name dv_df ''id'' = ''id_y''" by (rule n(2))
    have "dv_name dv_df ''id'' \<in> set (columns joined)" unfolding cols using id by simp
    then have c: "''id_x'' \<in> set (columns joined)" unfolding a .
    have d: "''id_y'' \<in> set (columns joined)" using loc_id unfolding b .
    have e: "''id'' \<notin> set (columns joined)"
    proof
      assume "''id'' \<in> set (columns joined)"
      then have "''id'' \<in> dv_name dv_df ` set (columns dv_df) \<or> ''id'' \<in> loc_name dv_df ` set loc_keep"
        unfolding cols by simp
      then show False
      proof
        assume "''id'' \<in> dv_name dv_df ` set (columns dv_df)"
        then obtain k where "dv_name dv_df k = ''id''" by (elim imageE) simp
        with n(3) [of k] show False by simp
      next
        assume "''id'' \<in> loc_name dv_df ` set loc_keep"
        then obtain k where "loc_name dv_df k = ''id''" by (elim imageE) simp
        with n(4) [of k] show False by simp
      qed
    qed
    have f: "\<exists>groups. rows joined = concat groups
                 \<and> list_all2 (\<lambda>l g. g \<noteq> [] \<and> list_all (\<lambda>r'. cell_of r' ''id_x'' = cell_of l ''id'') g)
                      (rows dv_df) groups"
      using join_groups_id_x [OF assms id] unfolding a .
    show ?thesis by (rule conjI [OF a conjI [OF b conjI [OF c conjI [OF d conjI [OF e f]]]]])
  qed
  have 4: "loc_name dv_df ''id'' = ''id'' \<and> ''id'' \<in> set (columns joined)"
    if id: "''id'' \<notin> set (columns dv_df)"
  proof -
    have a: "loc_name dv_df ''id'' = ''id''" by (rule join_names_without_id [OF id])
    have b: "''id'' \<in> set (columns joined)" using loc_id unfolding a .
    show ?thesis by (rule conjI [OF a b])
  qed
  have 5: "''id_x'' \<in> set (columns joined)
           \<and> columns cleaned = final_cols
           \<and> ''id'' \<in> set (columns cleaned) \<and> ''id_x'' \<notin> set (columns cleaned)
           \<and> (\<exists>groups. rows cleaned = concat groups
                 \<and> list_all2 (\<lambda>r g. g \<noteq> [] \<and> list_all (\<lambda>r'. cell_of r' ''id'' = cell_of r ''id_x'') g)
                      (kept_rows pd joined) groups)"
    if cl: "clean_and_transform_data pd joined P S = Inr cleaned"
  proof -
    have mj: "rows_match joined" by (rule rows_match_join [OF assms])
    have a: "''id_x'' \<in> set (columns joined)" by (rule clean_Inr(2) [OF cl mj])
    have b: "columns cleaned = final_cols" by (rule clean_Inr(1) [OF cl mj])
    have c: "''id'' \<in> set (columns cleaned)" unfolding b by (simp add: final_cols_def)
    have d: "''id_x'' \<notin> set (columns cleaned)" unfolding b by (simp add: final_cols_def)
    note e = clean_groups_id [OF cl mj]
    show ?thesis by (rule conjI [OF a conjI [OF b conjI [OF c conjI [OF d e]]]])
  qed
  show ?thesis
  proof (intro conjI impI)
    show "columns joined = map (dv_name dv_df) (columns dv_df) @ map (loc_name dv_df) loc_keep"
      by (rule cols)
    show "list_all (\<lambda>c. loc_name dv_df c \<in> set (columns joined)) loc_keep" by (rule 2)
  qed (erule 3 [THEN conjunct1] 3 [THEN conjunct2, THEN conjunct1]
       3 [THEN conjunct2, THEN conjunct2, THEN conjunct1]
       3 [THEN conjunct2, THEN conjunct2, THEN conjunct2, THEN conjunct1]
       3 [THEN conjunct2, THEN conjunct2, THEN conjunct2, THEN conjunct2, THEN conjunct1]
       3 [THEN conjunct2, THEN conjunct2, THEN conjunct2, THEN conjunct2, THEN conjunct2]
       4 [THEN conjunct1] 4 [THEN conjunct2]
       5 [THEN conjunct1] 5 [THEN conjunct2, THEN conjunct1]
       5 [THEN conjunct2, THEN conjunct2, THEN conjunct1]
       5 [THEN conjunct2, THEN conjunct2, THEN conjunct2, THEN conjunct1]
       5 [THEN conjunct2, THEN conjunct2, THEN conjunct2, THEN conjunct2])+
qed

lemma rows_match_example_dv: "rows_match example_dv"
  by (simp add: rows_match_def example_dv_def mk_table_def)

theorem join_id_columns_witness:
  "join_daily_values_with_locations example_dv example_loc = Inr example_joined
   \<and> rows_match example_dv
   \<and> clean_and_transform_data example_pandas example_joined example_param example_stat
       = Inr example_cleaned
   \<and> ''id'' \<in> set (columns example_dv)
   \<and> ''id_x'' \<in> set (columns example_joined)
   \<and> ''id_y'' \<in> set (columns example_joined)
   \<and> columns example_cleaned = final_cols
   \<and> map (\<lambda>r. cell_of r ''id_x'') (kept_rows example_pandas example_joined)
       = [CStr ''dv-1'', CStr ''dv-3'']
   \<and> map (\<lambda>r. cell_of r ''id'') (rows example_cleaned) = [CStr ''dv-1'', CStr ''dv-3'']"
proof -
  note t = join_id_columns [OF example_joined_join rows_match_example_dv,
      of example_pandas example_param example_stat example_cleaned]
  have id: "''id'' \<in> set (columns example_dv)"
    by (simp add: example_dv_def mk_table_def)
  from t have "''id'' \<in> set (columns example_dv) \<longrightarrow>
             dv_name example_dv ''id'' = ''id_x'' \<and> loc_name example_dv ''id'' = ''id_y''
           \<and> ''id_x'' \<in> set (columns example_joined) \<and> ''id_y'' \<in> set (columns example_joined)
           \<and> ''id'' \<notin> set (columns example_joined)
           \<and> (\<exists>groups. rows example_joined = concat groups
                 \<and> list_all2 (\<lambda>l g. g \<noteq> [] \<and> list_all (\<lambda>r'. cell_of r' ''id_x'' = cell_of l ''id'') g)
                      (rows example_dv) groups)"
    by (elim conjE)
  with id have a: "''id_x'' \<in> set (columns example_joined)"
    and b: "''id_y'' \<in> set (columns example_joined)" by simp_all
  from t have "clean_and_transform_data example_pandas example_joined example_param example_stat
                 = Inr example_cleaned \<longrightarrow>
             ''id_x'' \<in> set (columns example_joined)
           \<and> columns example_cleaned = final_cols
           \<and> ''id'' \<in> set (columns example_cleaned) \<and> ''id_x'' \<notin> set (columns example_cleaned)
           \<and> (\<exists>groups. rows example_cleaned = concat groups
                 \<and> list_all2 (\<lambda>r g. g \<noteq> [] \<and> list_all (\<lambda>r'. cell_of r' ''id'' = cell_of r ''id_x'') g)
                      (kept_rows example_pandas example_joined) groups)"
    by (elim conjE)
  with example_cleaned_clean have c: "columns example_cleaned = final_cols" by simp
  have d: "map (\<lambda>r. cell_of r ''id_x'') (kept_rows example_pandas example_joined)
       = [CStr ''dv-1'', CStr ''dv-3'']"
    by code_simp
  have e: "map (\<lambda>r. cell_of r ''id'') (rows example_cleaned) = [CStr ''dv-1'', CStr ''dv-3'']"
    by code_simp
  show ?thesis
    by (rule conjI [OF example_joined_join conjI [OF rows_match_example_dv
          conjI [OF example_cleaned_clean conjI [OF id conjI [OF a conjI [OF b
          conjI [OF c conjI [OF d e]]]]]]]])
qed

end
